theory Spec2Isabelle
  imports Complex_Main
begin

section \<open>Reservoir combine rule (WGSL, constants.ts)\<close>

text \<open>
  The shader's \<^verbatim>\<open>f32\<close> values are modelled as real numbers: rounding, infinities and NaN
  are outside the model. \<^verbatim>\<open>vec3f\<close> is a triple of reals.
\<close>

type_synonym vec3f = "real \<times> real \<times> real"

record Reservoir =
  y :: vec3f
  w_sum :: real
  M :: real

text \<open>The two \<^verbatim>\<open>let\<close> bindings at the head of \<^verbatim>\<open>combine_reservoirs\<close>.\<close>

definition maxW :: "Reservoir \<Rightarrow> real" where
  "maxW r = max (w_sum r * 15) (1 / 10)"

definition otherW :: "Reservoir \<Rightarrow> Reservoir \<Rightarrow> real" where
  "otherW r other = min (w_sum other) (maxW r)"

text \<open>
  \<^verbatim>\<open>combine_reservoirs(r: ptr<function, Reservoir>, other, randVal)\<close> mutates \<^verbatim>\<open>*r\<close>;
  the model returns the updated reservoir. The early \<^verbatim>\<open>return\<close> of the degenerate branch
  is the first branch of the conditional.
\<close>

definition combine_reservoirs :: "Reservoir \<Rightarrow> Reservoir \<Rightarrow> real \<Rightarrow> Reservoir" where
  "combine_reservoirs r other randVal =
     (let r1 = r\<lparr>M := M r + M other\<rparr>;
          r2 = r1\<lparr>w_sum := w_sum r1 + otherW r other\<rparr>
      in if w_sum r2 \<le> 1 / 1000000 then r2\<lparr>y := y other\<rparr>
         else if randVal < otherW r other / w_sum r2 then r2\<lparr>y := y other\<rparr>
         else r2)"

section \<open>Uniform layout packer (components/ShaderParams.tsx)\<close>

text \<open>
  \<^verbatim>\<open>ShaderParam = FloatParam | ColorParam | Vec3Param\<close> (types.ts), a union tagged by
  \<^verbatim>\<open>type\<close>. JavaScript numbers that hold parameter values are modelled as reals; byte
  offsets are natural numbers. The \<^verbatim>\<open>offsetMap\<close> object is a map from ids to offsets:
  its own properties that hold a number.
\<close>

datatype ParamType = float | color | vec3

datatype ShaderParam =
    FloatParam (param_id: string) (label: string) (fvalue: real)
               (pmin: real) (pmax: real) (pstep: "real option")
  | ColorParam (param_id: string) (label: string) (cvalue: "real \<times> real \<times> real")
  | Vec3Param (param_id: string) (label: string) (cvalue: "real \<times> real \<times> real")

fun param_type :: "ShaderParam \<Rightarrow> ParamType" where
  "param_type (FloatParam _ _ _ _ _ _) = float"
| "param_type (ColorParam _ _ _) = color"
| "param_type (Vec3Param _ _ _) = vec3"

record UniformLayout =
  size_bytes :: nat
  offsetMap :: "string \<rightharpoonup> nat"

text \<open>
  The body of the \<^verbatim>\<open>params.forEach\<close> callback of \<^verbatim>\<open>calculateUniformLayout\<close>. The two
  variables the callback mutates, \<^verbatim>\<open>currentOffset\<close> and \<^verbatim>\<open>offsetMap\<close>, are the state.
  \<^verbatim>\<open>offsetMap\<close> is a plain object: the assignment \<^verbatim>\<open>offsetMap[param.id] = currentOffset\<close>
  creates or updates a property for every id but \<^verbatim>\<open>__proto__\<close>, where it runs the
  prototype setter, which ignores a number; the offset advances all the same.
\<close>

definition layout_step :: "ShaderParam \<Rightarrow> nat \<times> (string \<rightharpoonup> nat) \<Rightarrow> nat \<times> (string \<rightharpoonup> nat)" where
  "layout_step param st =
     (let currentOffset = fst st;
          alignment = (if param_type param = color \<or> param_type param = vec3 then 16 else 4);
          sz = (if param_type param = color \<or> param_type param = vec3 then 16 else 4);
          padding = (alignment - currentOffset mod alignment) mod alignment;
          currentOffset1 = currentOffset + padding
      in (currentOffset1 + sz,
          if param_id param = ''__proto__'' then snd st
          else (snd st)(param_id param \<mapsto> currentOffset1)))"

fun layout_loop :: "ShaderParam list \<Rightarrow> nat \<times> (string \<rightharpoonup> nat) \<Rightarrow> nat \<times> (string \<rightharpoonup> nat)" where
  "layout_loop [] st = st"
| "layout_loop (param # params) st = layout_loop params (layout_step param st)"

definition calculateUniformLayout :: "ShaderParam list \<Rightarrow> nat \<Rightarrow> UniformLayout" where
  "calculateUniformLayout params startOffset =
     (let st = layout_loop params (startOffset, Map.empty);
          currentOffset = fst st;
          totalPadding = (16 - currentOffset mod 16) mod 16;
          totalSize = currentOffset + totalPadding
      in \<lparr>size_bytes = totalSize, offsetMap = snd st\<rparr>)"

text \<open>
  \<^verbatim>\<open>const floatOffset = layout.offsetMap[param.id] / 4\<close> is a JavaScript number. It is an
  integer exactly when 4 divides the byte offset; for a key missing from the map (the
  lookup then gives \<^verbatim>\<open>undefined\<close>, or something inherited from the prototype) it is NaN,
  and NaN plus one or two is NaN again. \<open>None\<close> stands for every value that is not an
  integer.
\<close>

definition floatOffset :: "UniformLayout \<Rightarrow> ShaderParam \<Rightarrow> nat option" where
  "floatOffset layout param =
     (case offsetMap layout (param_id param) of
        None \<Rightarrow> None
      | Some off \<Rightarrow> if off mod 4 = 0 then Some (off div 4) else None)"

text \<open>
  \<^verbatim>\<open>data[i] = v\<close> on a \<^verbatim>\<open>Float32Array\<close>: the element is stored when \<open>i\<close> is an integer
  below the array's length; any other index leaves the array as it is and raises nothing.
  The array never grows. Rounding of the stored value to 32 bits is not modelled.
\<close>

definition f32_store :: "real list \<Rightarrow> nat option \<Rightarrow> real \<Rightarrow> real list" where
  "f32_store data idx v =
     (case idx of None \<Rightarrow> data
      | Some i \<Rightarrow> if i < length data then data[i := v] else data)"

text \<open>The body of the \<^verbatim>\<open>params.forEach\<close> callback of \<^verbatim>\<open>writeParamsToBuffer\<close>.\<close>

fun write_param :: "UniformLayout \<Rightarrow> ShaderParam \<Rightarrow> real list \<Rightarrow> real list" where
  "write_param layout (FloatParam i l v lo hi st) data =
     f32_store data (floatOffset layout (FloatParam i l v lo hi st)) v"
| "write_param layout (ColorParam i l v) data =
     (let fo = floatOffset layout (ColorParam i l v);
          d0 = f32_store data fo (fst v);
          d1 = f32_store d0 (map_option (\<lambda>k. k + 1) fo) (fst (snd v))
      in f32_store d1 (map_option (\<lambda>k. k + 2) fo) (snd (snd v)))"
| "write_param layout (Vec3Param i l v) data =
     (let fo = floatOffset layout (Vec3Param i l v);
          d0 = f32_store data fo (fst v);
          d1 = f32_store d0 (map_option (\<lambda>k. k + 1) fo) (fst (snd v))
      in f32_store d1 (map_option (\<lambda>k. k + 2) fo) (snd (snd v)))"

fun writeParamsToBuffer :: "real list \<Rightarrow> ShaderParam list \<Rightarrow> UniformLayout \<Rightarrow> real list" where
  "writeParamsToBuffer data [] layout = data"
| "writeParamsToBuffer data (param # params) layout =
     writeParamsToBuffer (write_param layout param data) params layout"

text \<open>
  The float slots a parameter names through the layout: one slot at \<open>offset / 4\<close> for a
  float parameter, three consecutive slots from \<open>offset / 4\<close> for a color or vec3.
\<close>

definition named_slots :: "UniformLayout \<Rightarrow> ShaderParam \<Rightarrow> nat set" where
  "named_slots layout param =
     (case floatOffset layout param of
        None \<Rightarrow> {}
      | Some k \<Rightarrow> if param_type param = float then {k} else {k, k + 1, k + 2})"

text \<open>The engine's constants (FireRenderer).\<close>

definition STANDARD_HEADER_SIZE :: nat where
  "STANDARD_HEADER_SIZE = 48"

definition TOTAL_BUFFER_SIZE :: nat where
  "TOTAL_BUFFER_SIZE = 128"

text \<open>
  The bytes a parameter reserves (\<^verbatim>\<open>size\<close> in the callback of
  \<^verbatim>\<open>calculateUniformLayout\<close>, which equals its \<^verbatim>\<open>alignment\<close>).
\<close>

definition param_size :: "ShaderParam \<Rightarrow> nat" where
  "param_size param = (if param_type param = color \<or> param_type param = vec3 then 16 else 4)"

text \<open>
  Concrete inputs: six colors, whose layout behind the 48-byte header needs 144 bytes; a
  float followed by a color; and a color and a float with a hand-made layout that puts the
  float on the fourth slot of the color.
\<close>

definition six_colors :: "ShaderParam list" where
  "six_colors =
     [ColorParam ''c1'' ''c1'' (1, 1, 1), ColorParam ''c2'' ''c2'' (2, 2, 2),
      ColorParam ''c3'' ''c3'' (3, 3, 3), ColorParam ''c4'' ''c4'' (4, 4, 4),
      ColorParam ''c5'' ''c5'' (5, 5, 5), ColorParam ''c6'' ''c6'' (6, 6, 6)]"

definition two_params :: "ShaderParam list" where
  "two_params = [FloatParam ''a'' ''a'' 1 0 1 None, ColorParam ''b'' ''b'' (2, 3, 4)]"

definition overlapping_params :: "ShaderParam list" where
  "overlapping_params = [ColorParam ''a'' ''a'' (1, 2, 3), FloatParam ''b'' ''b'' 9 0 10 None]"

definition overlapping_layout :: UniformLayout where
  "overlapping_layout = \<lparr>size_bytes = 16, offsetMap = [''a'' \<mapsto> 0, ''b'' \<mapsto> 12]\<rparr>"

section \<open>Renderer (FireRenderer component)\<close>

subsection \<open>Values the renderer handles\<close>

text \<open>
  A \<^verbatim>\<open>GPUCompilationMessage\<close> as \<^verbatim>\<open>compilePipeline\<close> reads it, and the \<^verbatim>\<open>ShaderError\<close>
  it hands to \<^verbatim>\<open>onError\<close> (types.ts).
\<close>

datatype MessageType = error | warning | info

record CompilationMessage =
  msg_type :: MessageType
  msg_message :: string
  msg_lineNum :: nat
  msg_linePos :: nat

datatype ErrorType = compilation | validation | runtime

record ShaderError =
  err_type :: ErrorType
  err_message :: string
  err_lineNum :: "nat option"
  err_linePos :: "nat option"

text \<open>
  A render pipeline is known by what \<^verbatim>\<open>createRenderPipeline\<close> was given: its label, the
  code of the shader module, the fragment entry point and the target format. A history
  texture carries a serial number, so that the two textures of a pair differ.
\<close>

datatype Pipeline =
  RenderPipeline (pl_label: string) (pl_code: string) (pl_fragment: string) (pl_format: string)

datatype Texture = HistoryTexture (tex_serial: nat) (tex_width: nat) (tex_height: nat)

text \<open>\<^verbatim>\<open>MediaRecorder.state\<close>.\<close>

datatype RecorderState = inactive | recording | paused

text \<open>
  \<^verbatim>\<open>VideoConfig\<close> (types.ts); the fields the renderer never reads (shot type, orchestrate,
  post-process, format) are left out. The export dialog offers 30 or 60 frames per second
  and 1 to 20 seconds.
\<close>

record VideoConfig =
  duration :: real
  fps :: real
  bitrate :: real

text \<open>
  One submitted frame: the uniform block written for it, the two pipelines, the input bound
  to the integrator pass (the noise texture when \<^verbatim>\<open>frameIndex\<close> is 0, else the source
  history texture), the source and destination history textures, and the state of the
  media recorder when the frame was submitted. A frame submitted while the recorder is
  \<^verbatim>\<open>recording\<close> is one that reaches the encoder; the sampling of the canvas stream in
  real time is outside the model.
\<close>

record Frame =
  uniformData :: "real list"
  integratorPipe :: Pipeline
  displayPipe :: Pipeline
  inputIsNoise :: bool
  sourceTexture :: Texture
  destTexture :: Texture
  recorderAtSubmit :: "RecorderState option"

subsection \<open>State\<close>

text \<open>
  The refs of the component, one field each (\<open>deviceRef\<close>, \<open>contextRef\<close> and
  \<open>uniformBufferRef\<close> say whether the ref is non-null; \<open>recorder\<close> is \<open>None\<close> for a null \<^verbatim>\<open>recorderRef\<close>), the
  fields of \<^verbatim>\<open>cameraState\<close> and \<^verbatim>\<open>mouseState\<close>, and what the component has sent out: the
  calls of \<^verbatim>\<open>onError\<close>, \<^verbatim>\<open>onClearError\<close> and \<^verbatim>\<open>onRecordProgress\<close>, the shader modules
  created, the frames submitted, the stills and videos downloaded. \<open>stopPending\<close> holds
  between \<^verbatim>\<open>MediaRecorder.stop()\<close> and the \<^verbatim>\<open>stop\<close> event it queues.

  \<open>mountParams\<close> is the parameter list of the first React render. \<^verbatim>\<open>render\<close> reschedules
  itself, so the \<^verbatim>\<open>layout\<close> constant it reads is always the one computed then, while the
  values come from \<^verbatim>\<open>paramsRef.current\<close>.
\<close>

record Renderer =
  deviceRef :: bool
  contextRef :: bool
  uniformBufferRef :: bool
  integratorPipeline :: "Pipeline option"
  displayPipeline :: "Pipeline option"
  historyTextureA :: "Texture option"
  historyTextureB :: "Texture option"
  texturesCreated :: nat
  frameIndex :: nat
  canvasWidth :: nat
  canvasHeight :: nat
  startTime :: real
  capturePending :: real
  recorder :: "RecorderState option"
  stopPending :: bool
  recordingConfig :: "VideoConfig option"
  isRecording :: bool
  recordedFrames :: nat
  paramsRef :: "ShaderParam list"
  mountParams :: "ShaderParam list"
  theta :: real
  phi :: real
  radius :: real
  isDragging :: bool
  lastX :: real
  lastY :: real
  mouseX :: real
  mouseY :: real
  isDown :: real
  errors :: "ShaderError list"
  clearErrors :: nat
  progress :: "(bool \<times> real) list"
  shaderModules :: "string list"
  frames :: "Frame list"
  captures :: nat
  videos :: nat

subsection \<open>compilePipeline\<close>

text \<open>
  \<^verbatim>\<open>compilePipeline(device, code, context)\<close>. The diagnostics of
  \<^verbatim>\<open>shaderModule.getCompilationInfo()\<close> and the preferred canvas format come from the
  browser and are arguments here. \<^verbatim>\<open>getErrorMessage\<close> returns a string argument as it is.
\<close>

definition reportError :: "CompilationMessage \<Rightarrow> ShaderError" where
  "reportError msg =
     \<lparr>err_type = compilation, err_message = msg_message msg,
      err_lineNum = Some (msg_lineNum msg), err_linePos = Some (msg_linePos msg)\<rparr>"

text \<open>The \<^verbatim>\<open>for (const msg of compilationInfo.messages)\<close> loop: \<^verbatim>\<open>hasError\<close> and the reports.\<close>

fun scanMessages :: "CompilationMessage list \<Rightarrow> bool \<times> ShaderError list \<Rightarrow> bool \<times> ShaderError list" where
  "scanMessages [] acc = acc"
| "scanMessages (msg # msgs) acc =
     scanMessages msgs
       (if msg_type msg = error then (True, snd acc @ [reportError msg]) else acc)"

definition compilePipeline :: "string \<Rightarrow> CompilationMessage list \<Rightarrow> string \<Rightarrow> Renderer \<Rightarrow> Renderer" where
  "compilePipeline code messages screenFormat s =
     (let s0 = s\<lparr>shaderModules := shaderModules s @ [code]\<rparr>;
          scan = (if 0 < length messages then scanMessages messages (False, []) else (False, []));
          s1 = s0\<lparr>errors := errors s0 @ snd scan\<rparr>
      in if fst scan then s1
         else s1\<lparr>clearErrors := clearErrors s1 + 1,
                 integratorPipeline :=
                   Some (RenderPipeline ''Integrator Pipeline'' code ''fs_main'' ''rgba16float''),
                 displayPipeline :=
                   Some (RenderPipeline ''Display Pipeline'' code ''fs_display'' screenFormat),
                 frameIndex := 0\<rparr>)"

text \<open>
  The path of \<^verbatim>\<open>initWebGPU\<close> on a browser with WebGPU: the device, the context and the
  uniform buffer are set, then the first compilation runs. Without WebGPU an error is
  reported and nothing else happens.
\<close>

definition initWebGPU :: "bool \<Rightarrow> string \<Rightarrow> CompilationMessage list \<Rightarrow> string \<Rightarrow> Renderer \<Rightarrow> Renderer" where
  "initWebGPU gpu code messages screenFormat s =
     (if \<not> gpu
      then s\<lparr>errors := errors s @ [\<lparr>err_type = compilation, err_message = ''WebGPU not supported.'',
                                     err_lineNum = None, err_linePos = None\<rparr>]\<rparr>
      else compilePipeline code messages screenFormat
             (s\<lparr>deviceRef := True, contextRef := True, uniformBufferRef := True\<rparr>))"

text \<open>The effect on \<^verbatim>\<open>[shaderCode]\<close>: it runs when React sees a new \<^verbatim>\<open>shaderCode\<close> prop.\<close>

definition shaderCodeEffect :: "string \<Rightarrow> CompilationMessage list \<Rightarrow> string \<Rightarrow> Renderer \<Rightarrow> Renderer" where
  "shaderCodeEffect shaderCode messages screenFormat s =
     (if deviceRef s \<and> contextRef s then compilePipeline shaderCode messages screenFormat s else s)"

subsection \<open>The imperative handle\<close>

definition capture :: "real \<Rightarrow> Renderer \<Rightarrow> Renderer" where
  "capture quality s = s\<lparr>capturePending := quality\<rparr>"

text \<open>\<^verbatim>\<open>MediaRecorder.stop()\<close> makes the recorder inactive at once and queues the stop event.\<close>

definition recorder_stop :: "Renderer \<Rightarrow> Renderer" where
  "recorder_stop s = s\<lparr>recorder := Some inactive, stopPending := True\<rparr>"

text \<open>
  \<^verbatim>\<open>startVideo\<close>: the canvas is set to 1920 by 1080 here, not in \<^verbatim>\<open>render\<close>; a new
  recorder is created on the canvas stream and started. The chunks and the stream are not
  modelled.
\<close>

definition startVideo :: "VideoConfig \<Rightarrow> Renderer \<Rightarrow> Renderer" where
  "startVideo config s =
     s\<lparr>recordingConfig := Some config, recordedFrames := 0,
       canvasWidth := 1920, canvasHeight := 1080,
       recorder := Some recording, isRecording := True\<rparr>"

definition stopVideo :: "Renderer \<Rightarrow> Renderer" where
  "stopVideo s = (if recorder s = Some recording then recorder_stop s else s)"

text \<open>The \<^verbatim>\<open>onstop\<close> handler installed by \<^verbatim>\<open>startVideo\<close>, run when the stop event fires.\<close>

definition recorder_onstop :: "Renderer \<Rightarrow> Renderer" where
  "recorder_onstop s =
     (if stopPending s
      then s\<lparr>stopPending := False, videos := videos s + 1, isRecording := False,
             progress := progress s @ [(False, 0)]\<rparr>
      else s)"

text \<open>
  \<^verbatim>\<open>setParams\<close> and the effect that copies the new list to \<^verbatim>\<open>paramsRef.current\<close>; the
  slider and color handlers of the control panel and \<^verbatim>\<open>setDebugMode\<close> go through it. The
  color handler gets the color already parsed from its hex string.
\<close>

definition setParams :: "(ShaderParam list \<Rightarrow> ShaderParam list) \<Rightarrow> Renderer \<Rightarrow> Renderer" where
  "setParams f s = s\<lparr>paramsRef := f (paramsRef s)\<rparr>"

fun setFloat :: "string \<Rightarrow> real \<Rightarrow> ShaderParam \<Rightarrow> ShaderParam" where
  "setFloat k newVal (FloatParam i l v lo hi st) =
     (if i = k then FloatParam i l newVal lo hi st else FloatParam i l v lo hi st)"
| "setFloat k newVal param = param"

fun setColor :: "string \<Rightarrow> real \<times> real \<times> real \<Rightarrow> ShaderParam \<Rightarrow> ShaderParam" where
  "setColor k newColor (FloatParam i l v lo hi st) = FloatParam i l v lo hi st"
| "setColor k newColor (ColorParam i l v) =
     (if i = k then ColorParam i l newColor else ColorParam i l v)"
| "setColor k newColor (Vec3Param i l v) =
     (if i = k then Vec3Param i l newColor else Vec3Param i l v)"

definition handleFloatChange :: "string \<Rightarrow> real \<Rightarrow> Renderer \<Rightarrow> Renderer" where
  "handleFloatChange k newVal = setParams (map (setFloat k newVal))"

definition handleColorChange :: "string \<Rightarrow> real \<times> real \<times> real \<Rightarrow> Renderer \<Rightarrow> Renderer" where
  "handleColorChange k newColor = setParams (map (setColor k newColor))"

subsection \<open>Pointer and wheel handlers\<close>

definition handlePointerDown :: "real \<Rightarrow> real \<Rightarrow> Renderer \<Rightarrow> Renderer" where
  "handlePointerDown clientX clientY s =
     (if isRecording s then s
      else s\<lparr>isDragging := True, lastX := clientX, lastY := clientY, isDown := 1\<rparr>)"

text \<open>\<open>rect\<close> is the left and top of the canvas' bounding rectangle, when there is a canvas.\<close>

definition handlePointerMove :: "real \<Rightarrow> real \<Rightarrow> (real \<times> real) option \<Rightarrow> Renderer \<Rightarrow> Renderer" where
  "handlePointerMove clientX clientY rect s =
     (let s1 = (case rect of
                  None \<Rightarrow> s
                | Some (rectLeft, rectTop) \<Rightarrow>
                    s\<lparr>mouseX := clientX - rectLeft, mouseY := clientY - rectTop\<rparr>)
      in if isDragging s1
         then (let dx = clientX - lastX s1; dy = clientY - lastY s1
               in s1\<lparr>lastX := clientX, lastY := clientY,
                     theta := theta s1 - dx * (1 / 100),
                     phi := max (- (3 / 2)) (min (3 / 2) (phi s1 + dy * (1 / 100))),
                     frameIndex := 0\<rparr>)
         else s1)"

definition handlePointerUp :: "Renderer \<Rightarrow> Renderer" where
  "handlePointerUp s = s\<lparr>isDragging := False, isDown := 0\<rparr>"

definition handleWheel :: "real \<Rightarrow> Renderer \<Rightarrow> Renderer" where
  "handleWheel deltaY s =
     s\<lparr>radius := max 1 (min 50 (radius s + deltaY * (5 / 1000))), frameIndex := 0\<rparr>"

subsection \<open>render\<close>

text \<open>
  The canvas-sizing block. \<open>clientW\<close> and \<open>clientH\<close> are
  \<^verbatim>\<open>Math.floor(canvas.clientWidth * dpr)\<close> and \<^verbatim>\<open>Math.floor(canvas.clientHeight * dpr)\<close>.
\<close>

definition targetSize :: "nat \<Rightarrow> nat \<Rightarrow> Renderer \<Rightarrow> nat \<times> nat" where
  "targetSize clientW clientH s =
     (if 0 < capturePending s then (3840, 2160)
      else if isRecording s then (1920, 1080)
      else (clientW, clientH))"

definition needsHistory :: "nat \<Rightarrow> nat \<Rightarrow> Renderer \<Rightarrow> bool" where
  "needsHistory width height s =
     (canvasWidth s \<noteq> width \<or> canvasHeight s \<noteq> height
      \<or> historyTextureA s = None \<or> historyTextureB s = None)"

definition recreateHistory :: "nat \<Rightarrow> nat \<Rightarrow> Renderer \<Rightarrow> Renderer" where
  "recreateHistory width height s =
     s\<lparr>canvasWidth := width, canvasHeight := height,
       historyTextureA := Some (HistoryTexture (texturesCreated s) width height),
       historyTextureB := Some (HistoryTexture (texturesCreated s + 1) width height),
       texturesCreated := texturesCreated s + 2,
       frameIndex := 0\<rparr>"

definition ensureHistory :: "nat \<Rightarrow> nat \<Rightarrow> Renderer \<Rightarrow> Renderer" where
  "ensureHistory width height s =
     (if needsHistory width height s then recreateHistory width height s else s)"

text \<open>
  The timing block. While recording, the elapsed time is \<^verbatim>\<open>recordedFrames / fps\<close>, the
  counter advances, the progress is reported, and the recorder is stopped once the elapsed
  time has reached the duration. Otherwise the elapsed time is the wall-clock one.
\<close>

definition recordingTick :: "real \<Rightarrow> Renderer \<Rightarrow> real \<times> Renderer" where
  "recordingTick wallClock s =
     (case recordingConfig s of
        None \<Rightarrow> (wallClock, s)
      | Some config \<Rightarrow>
          if isRecording s
          then (let elapsedTime = real (recordedFrames s) / fps config;
                    s1 = s\<lparr>recordedFrames := recordedFrames s + 1\<rparr>;
                    s2 = s1\<lparr>progress := progress s1 @ [(True, max 0 (duration config - elapsedTime))]\<rparr>
                in (elapsedTime,
                    if duration config \<le> elapsedTime \<and> recorder s2 = Some recording
                    then recorder_stop s2 else s2))
          else (wallClock, s))"

text \<open>
  The uniform block of a frame: a fresh \<^verbatim>\<open>Float32Array(TOTAL_BUFFER_SIZE / 4)\<close>, the header,
  the parameters, and the audio volume in slot 31. The volume is an argument.
\<close>

definition updateUniforms :: "nat \<Rightarrow> nat \<Rightarrow> real \<Rightarrow> real \<Rightarrow> Renderer \<Rightarrow> real list" where
  "updateUniforms width height elapsedTime vol s =
     (let cx = radius s * cos (phi s) * sin (theta s);
          cy = radius s * sin (phi s);
          cz = radius s * cos (phi s) * cos (theta s);
          d0 = replicate (TOTAL_BUFFER_SIZE div 4) 0;
          d1 = d0[0 := real width, 1 := real height, 2 := elapsedTime, 3 := real (frameIndex s)];
          d2 = d1[4 := cx, 5 := cy, 6 := cz];
          d3 = d2[8 := mouseX s, 9 := mouseY s, 10 := isDown s];
          d4 = writeParamsToBuffer d3 (paramsRef s)
                 (calculateUniformLayout (mountParams s) STANDARD_HEADER_SIZE)
      in d4[31 := vol])"

text \<open>The two passes, the submission, the ping-pong swap and the advance of \<^verbatim>\<open>frameIndex\<close>.\<close>

definition submitFrame :: "real list \<Rightarrow> Pipeline \<Rightarrow> Pipeline \<Rightarrow> Texture \<Rightarrow> Texture \<Rightarrow> Renderer \<Rightarrow> Renderer" where
  "submitFrame data integratorP displayP src dst s =
     (let frame = \<lparr>uniformData = data, integratorPipe = integratorP, displayPipe = displayP,
                    inputIsNoise = (frameIndex s = 0), sourceTexture = src, destTexture = dst,
                    recorderAtSubmit = recorder s\<rparr>;
          s1 = s\<lparr>frames := frames s @ [frame]\<rparr>
      in s1\<lparr>historyTextureA := Some dst, historyTextureB := Some src,
             frameIndex := frameIndex s1 + 1\<rparr>)"

definition serviceCapture :: "Renderer \<Rightarrow> Renderer" where
  "serviceCapture s =
     (if 0 < capturePending s then s\<lparr>captures := captures s + 1, capturePending := 0\<rparr> else s)"

text \<open>
  \<^verbatim>\<open>render(time)\<close>. When a ref is still null the callback only reschedules itself. After
  \<open>ensureHistory\<close> both history textures exist, so the last case is never reached.
\<close>

definition render :: "real \<Rightarrow> nat \<Rightarrow> nat \<Rightarrow> real \<Rightarrow> Renderer \<Rightarrow> Renderer" where
  "render time clientW clientH vol s =
     (case (integratorPipeline s, displayPipeline s) of
        (Some integratorP, Some displayP) \<Rightarrow>
          if \<not> (deviceRef s \<and> contextRef s \<and> uniformBufferRef s) then s
          else (let wh = targetSize clientW clientH s;
                    s1 = ensureHistory (fst wh) (snd wh) s;
                    tick = recordingTick ((time - startTime s1) * (1 / 1000)) s1;
                    s2 = snd tick;
                    data = updateUniforms (fst wh) (snd wh) (fst tick) vol s2
                in case (historyTextureA s2, historyTextureB s2) of
                     (Some src, Some dst) \<Rightarrow>
                       serviceCapture (submitFrame data integratorP displayP src dst s2)
                   | _ \<Rightarrow> s2)
      | _ \<Rightarrow> s)"

text \<open>Whether \<^verbatim>\<open>render\<close> gets past its first test, and a run of render callbacks.\<close>

definition renderReady :: "Renderer \<Rightarrow> bool" where
  "renderReady s =
     (deviceRef s \<and> contextRef s \<and> uniformBufferRef s
      \<and> integratorPipeline s \<noteq> None \<and> displayPipeline s \<noteq> None)"

fun renders :: "(real \<times> nat \<times> nat \<times> real) list \<Rightarrow> Renderer \<Rightarrow> Renderer" where
  "renders [] s = s"
| "renders ((time, clientW, clientH, vol) # rest) s = renders rest (render time clientW clientH vol s)"

subsection \<open>Everything that can happen to the renderer\<close>

datatype Event =
    Render real nat nat real
  | ShaderCodeEffect string "CompilationMessage list" string
  | InitWebGPU bool string "CompilationMessage list" string
  | PointerDown real real
  | PointerMove real real "(real \<times> real) option"
  | PointerUp
  | Wheel real
  | SetParams "ShaderParam list"
  | FloatChange string real
  | ColorChange string "real \<times> real \<times> real"
  | SetDebugMode real
  | Capture real
  | StartVideo VideoConfig
  | StopVideo
  | RecorderStopped

text \<open>\<^verbatim>\<open>setDebugMode\<close> updates the \<^verbatim>\<open>debugMode\<close> parameter, a float, or appends one when
  there is none.\<close>

definition setDebugMode :: "real \<Rightarrow> Renderer \<Rightarrow> Renderer" where
  "setDebugMode mode =
     setParams (\<lambda>prev.
       if List.find (\<lambda>p. param_id p = ''debugMode'') prev \<noteq> None
       then map (\<lambda>p. if param_id p = ''debugMode'' then setFloat ''debugMode'' mode p else p) prev
       else prev @ [FloatParam ''debugMode'' ''Debug View'' mode 0 5 None])"

fun handle :: "Event \<Rightarrow> Renderer \<Rightarrow> Renderer" where
  "handle (Render time clientW clientH vol) s = render time clientW clientH vol s"
| "handle (ShaderCodeEffect code messages screenFormat) s = shaderCodeEffect code messages screenFormat s"
| "handle (InitWebGPU gpu code messages screenFormat) s = initWebGPU gpu code messages screenFormat s"
| "handle (PointerDown clientX clientY) s = handlePointerDown clientX clientY s"
| "handle (PointerMove clientX clientY rect) s = handlePointerMove clientX clientY rect s"
| "handle PointerUp s = handlePointerUp s"
| "handle (Wheel deltaY) s = handleWheel deltaY s"
| "handle (SetParams ps) s = setParams (\<lambda>_. ps) s"
| "handle (FloatChange k newVal) s = handleFloatChange k newVal s"
| "handle (ColorChange k newColor) s = handleColorChange k newColor s"
| "handle (SetDebugMode mode) s = setDebugMode mode s"
| "handle (Capture quality) s = capture quality s"
| "handle (StartVideo config) s = startVideo config s"
| "handle StopVideo s = stopVideo s"
| "handle RecorderStopped s = recorder_onstop s"

subsection \<open>The component after mount\<close>

text \<open>
  The initial parameter list of the component and its state right after mount: every ref is
  still null, the canvas has the default size of an HTML canvas, and the clock starts at 0.
\<close>

definition initialParams :: "ShaderParam list" where
  "initialParams =
     [FloatParam ''animSpeed'' ''Animation Speed'' (8 / 10) 0 5 None,
      FloatParam ''boxRoughness'' ''Roughness'' (1 / 10) 0 1 None,
      FloatParam ''indirectIntensity'' ''Light Intensity'' (18 / 10) 0 10 None,
      FloatParam ''grainStrength'' ''Film Grain'' (5 / 10) 0 2 None,
      ColorParam ''baseColor'' ''Artifact Color'' (8 / 10, 85 / 100, 1),
      FloatParam ''lightAz'' ''Light Azimuth'' (9 / 10) 0 1 None,
      FloatParam ''lightEl'' ''Light Elevation'' (2 / 10) 0 1 None,
      FloatParam ''aberrationStrength'' ''Aberration'' (2 / 100) 0 1 None,
      FloatParam ''debugMode'' ''Debug Mode'' 0 0 5 (Some 1)]"

definition mounted :: Renderer where
  "mounted =
     \<lparr>deviceRef = False, contextRef = False, uniformBufferRef = False,
      integratorPipeline = None, displayPipeline = None,
      historyTextureA = None, historyTextureB = None, texturesCreated = 0,
      frameIndex = 0, canvasWidth = 300, canvasHeight = 150, startTime = 0,
      capturePending = 0, recorder = None, stopPending = False, recordingConfig = None,
      isRecording = False, recordedFrames = 0,
      paramsRef = initialParams, mountParams = initialParams,
      theta = 5 / 10, phi = 1 / 10, radius = 55 / 10, isDragging = False, lastX = 0, lastY = 0,
      mouseX = 0, mouseY = 0, isDown = 0,
      errors = [], clearErrors = 0, progress = [], shaderModules = [], frames = [],
      captures = 0, videos = 0\<rparr>"

text \<open>
  The renderer after a first compilation without diagnostics, and after seven frames drawn
  at 800 by 600.
\<close>

definition initialised :: Renderer where
  "initialised = initWebGPU True ''shader'' [] ''bgra8unorm'' mounted"

definition accumulated :: Renderer where
  "accumulated = renders (replicate 7 (16, 800, 600, 0)) initialised"

text \<open>
  A renderer drawing to the screen at a given size: ready, no capture pending, not
  recording, the canvas and both history textures at that size.
\<close>

definition settled :: "nat \<Rightarrow> nat \<Rightarrow> Renderer \<Rightarrow> bool" where
  "settled width height s =
     (renderReady s \<and> capturePending s \<le> 0 \<and> \<not> isRecording s
      \<and> canvasWidth s = width \<and> canvasHeight s = height
      \<and> (case (historyTextureA s, historyTextureB s) of
            (Some a, Some b) \<Rightarrow>
              tex_width a = width \<and> tex_height a = height
              \<and> tex_width b = width \<and> tex_height b = height
          | _ \<Rightarrow> False))"

text \<open>The diagnostics of a compilation that fails: a warning and an error.\<close>

definition bad_diagnostics :: "CompilationMessage list" where
  "bad_diagnostics =
     [\<lparr>msg_type = warning, msg_message = ''unused variable'', msg_lineNum = 3, msg_linePos = 7\<rparr>,
      \<lparr>msg_type = error, msg_message = ''unresolved identifier'', msg_lineNum = 12, msg_linePos = 5\<rparr>]"

subsection \<open>Observations\<close>

text \<open>
  The frames of a list that reached the encoder, and the elapsed time (slot 2 of the uniform
  block) of each frame of a list.
\<close>

definition encoded :: "Frame list \<Rightarrow> Frame list" where
  "encoded fs = filter (\<lambda>f. recorderAtSubmit f = Some recording) fs"

definition timeline :: "Frame list \<Rightarrow> real list" where
  "timeline fs = map (\<lambda>f. uniformData f ! 2) fs"

section \<open>Debounced shader edits (App component)\<close>

text \<open>
  The part of \<^verbatim>\<open>App\<close> that feeds the renderer its shader source: the \<^verbatim>\<open>shaderCode\<close> state,
  the timer armed by \<^verbatim>\<open>handleCodeChange\<close>, and the renderer itself. Time is in milliseconds.
  \<open>pendingTimeout\<close> is the timer that has neither fired nor been cleared, with the time it
  is due and the text its callback holds; \<open>recompilations\<close> lists, for each call of
  \<^verbatim>\<open>compilePipeline\<close> made by the effect on \<^verbatim>\<open>[shaderCode]\<close>, the time and the code.
\<close>

record App =
  shaderCode :: string
  pendingTimeout :: "(nat \<times> string) option"
  renderer :: Renderer
  recompilations :: "(nat \<times> string) list"

text \<open>\<^verbatim>\<open>handleCodeChange\<close>: the previous timer is cleared and a new one is set, due in 500 ms.\<close>

definition handleCodeChange :: "nat \<Rightarrow> string \<Rightarrow> App \<Rightarrow> App" where
  "handleCodeChange now newCode app = app\<lparr>pendingTimeout := Some (now + 500, newCode)\<rparr>"

text \<open>
  \<^verbatim>\<open>setShaderCode(newCode)\<close> and what React does with it. A state set to the value it
  already has changes nothing: no render, no effect. Otherwise the renderer gets the new
  prop and its effect on \<^verbatim>\<open>[shaderCode]\<close> runs, which compiles when the device and the
  context are there. The diagnostics the browser gives for a shader text and the canvas
  format are arguments.
\<close>

definition setShaderCode ::
  "(string \<Rightarrow> CompilationMessage list) \<Rightarrow> string \<Rightarrow> nat \<Rightarrow> string \<Rightarrow> App \<Rightarrow> App" where
  "setShaderCode diagnostics screenFormat now newCode app =
     (if newCode = shaderCode app then app
      else (let app1 = app\<lparr>shaderCode := newCode\<rparr>
            in if deviceRef (renderer app1) \<and> contextRef (renderer app1)
               then app1\<lparr>renderer := compilePipeline newCode (diagnostics newCode) screenFormat
                                         (renderer app1),
                         recompilations := recompilations app1 @ [(now, newCode)]\<rparr>
               else app1))"

text \<open>
  The event loop gets to run timers at time \<open>now\<close>. A timer never runs before it is due;
  it may run later.
\<close>

definition timerFires ::
  "(string \<Rightarrow> CompilationMessage list) \<Rightarrow> string \<Rightarrow> nat \<Rightarrow> App \<Rightarrow> App" where
  "timerFires diagnostics screenFormat now app =
     (case pendingTimeout app of
        None \<Rightarrow> app
      | Some (due, newCode) \<Rightarrow>
          if now < due then app
          else setShaderCode diagnostics screenFormat now newCode (app\<lparr>pendingTimeout := None\<rparr>))"

datatype AppEvent = Edit nat string | Timer nat

fun appStep ::
  "(string \<Rightarrow> CompilationMessage list) \<Rightarrow> string \<Rightarrow> AppEvent \<Rightarrow> App \<Rightarrow> App" where
  "appStep diagnostics screenFormat (Edit now newCode) app = handleCodeChange now newCode app"
| "appStep diagnostics screenFormat (Timer now) app = timerFires diagnostics screenFormat now app"

fun appRun ::
  "(string \<Rightarrow> CompilationMessage list) \<Rightarrow> string \<Rightarrow> AppEvent list \<Rightarrow> App \<Rightarrow> App" where
  "appRun diagnostics screenFormat [] app = app"
| "appRun diagnostics screenFormat (ev # evs) app =
     appRun diagnostics screenFormat evs (appStep diagnostics screenFormat ev app)"

text \<open>The app showing the shader text \<open>shader\<close> on the initialised renderer, no edit pending.\<close>

definition idleApp :: App where
  "idleApp = \<lparr>shaderCode = ''shader'', pendingTimeout = None, renderer = initialised,
              recompilations = []\<rparr>"

section \<open>Theorems: reservoirs\<close>

text \<open>
  C1. Combining two reservoirs yields a reservoir whose \<open>M\<close> is the sum of the two
  input \<open>M\<close>s, for every random draw.
\<close>

theorem combine_reservoirs_M:
  "M (combine_reservoirs r other randVal) = M r + M other"
  by (simp add: combine_reservoirs_def Let_def)

text \<open>
  C3. The reference case: \<open>r = {w_sum: 1, M: 1, y: A}\<close>, \<open>o = {w_sum: 20, M: 1, y: B}\<close>,
  draw \<open>0.5\<close>. Then \<open>maxW = 15\<close>, \<open>otherW = 15\<close>, the new \<open>w_sum\<close> is 16, \<open>M\<close> is 2, and
  \<open>y = B\<close> is selected since \<open>0.5 < 15/16\<close>.
\<close>

theorem combine_reservoirs_reference_case:
  "maxW \<lparr>y = A, w_sum = 1, M = 1\<rparr> = 15
   \<and> otherW \<lparr>y = A, w_sum = 1, M = 1\<rparr> \<lparr>y = B, w_sum = 20, M = 1\<rparr> = 15
   \<and> (1 / 2 :: real) < 15 / 16
   \<and> combine_reservoirs \<lparr>y = A, w_sum = 1, M = 1\<rparr> \<lparr>y = B, w_sum = 20, M = 1\<rparr> (1 / 2)
       = \<lparr>y = B, w_sum = 16, M = 2\<rparr>"
  by (simp add: combine_reservoirs_def maxW_def otherW_def Let_def)

text \<open>
  C2 (as stated). Whenever \<open>o.w_sum > 15 * r.w_sum\<close>, the amount added to \<open>r.w_sum\<close> is said
  never to be the unclamped \<open>o.w_sum\<close>. Below the floor \<open>0.1\<close> the clamp does not bite: with
  \<open>r.w_sum = 0\<close> and \<open>o.w_sum = 0.05\<close> the whole of \<open>o.w_sum\<close> is added.
\<close>

theorem combine_reservoirs_unclamped_below_floor:
  "15 * w_sum \<lparr>y = (0, 0, 0), w_sum = 0, M = 1\<rparr>
     < w_sum \<lparr>y = (1, 1, 1), w_sum = 1 / 20, M = 1\<rparr>
   \<and> w_sum (combine_reservoirs \<lparr>y = (0, 0, 0), w_sum = 0, M = 1\<rparr>
                \<lparr>y = (1, 1, 1), w_sum = 1 / 20, M = 1\<rparr> 0)
       - w_sum \<lparr>y = (0, 0, 0), w_sum = 0, M = 1\<rparr>
     = w_sum \<lparr>y = (1, 1, 1), w_sum = 1 / 20, M = 1\<rparr>"
  by (simp add: combine_reservoirs_def maxW_def otherW_def Let_def)

text \<open>
  C2 (amended). For reservoirs with non-negative \<open>w_sum\<close>, combine never decreases \<open>w_sum\<close>
  below \<open>r.w_sum\<close>; the amount added is always the clamped value
  \<open>min(o.w_sum, max(15 * r.w_sum, 0.1))\<close>; and whenever \<open>o.w_sum\<close> exceeds the clamp limit
  \<open>max(15 * r.w_sum, 0.1)\<close> the amount added is that limit, strictly less than \<open>o.w_sum\<close>.
\<close>

theorem combine_reservoirs_w_sum_clamped:
  assumes "0 \<le> w_sum r" and "0 \<le> w_sum other"
  shows "w_sum r \<le> w_sum (combine_reservoirs r other randVal)
       \<and> w_sum (combine_reservoirs r other randVal) - w_sum r
           = min (w_sum other) (max (15 * w_sum r) (1 / 10))
       \<and> (max (15 * w_sum r) (1 / 10) < w_sum other \<longrightarrow>
            w_sum (combine_reservoirs r other randVal) - w_sum r = max (15 * w_sum r) (1 / 10)
            \<and> w_sum (combine_reservoirs r other randVal) - w_sum r < w_sum other)"
proof -
  have eq: "w_sum (combine_reservoirs r other randVal) = w_sum r + otherW r other"
    by (simp add: combine_reservoirs_def Let_def)
  have ow: "otherW r other = min (w_sum other) (max (15 * w_sum r) (1 / 10))"
    by (simp add: otherW_def maxW_def mult.commute)
  have nonneg: "0 \<le> otherW r other"
    using assms by (simp add: ow)
  show ?thesis
    using nonneg by (auto simp: eq ow)
qed

text \<open>
  C2 (amended), at \<open>r.w_sum = 1\<close> and \<open>o.w_sum = 20\<close>: 15 is added, not 20.
\<close>

theorem combine_reservoirs_w_sum_clamped_witness:
  "w_sum \<lparr>y = (0, 0, 0), w_sum = 1, M = 1\<rparr>
     \<le> w_sum (combine_reservoirs \<lparr>y = (0, 0, 0), w_sum = 1, M = 1\<rparr>
                 \<lparr>y = (1, 1, 1), w_sum = 20, M = 1\<rparr> (1 / 2))
   \<and> w_sum (combine_reservoirs \<lparr>y = (0, 0, 0), w_sum = 1, M = 1\<rparr>
                \<lparr>y = (1, 1, 1), w_sum = 20, M = 1\<rparr> (1 / 2)) - 1 = 15
   \<and> (15 :: real) < 20"
  using combine_reservoirs_w_sum_clamped
    [of "\<lparr>y = (0, 0, 0), w_sum = 1, M = 1\<rparr>" "\<lparr>y = (1, 1, 1), w_sum = 20, M = 1\<rparr>" "1 / 2"]
  by simp

section \<open>Theorems: uniform layout packer\<close>


lemma f32_store_length: "length (f32_store data idx v) = length data"
  by (simp add: f32_store_def split: option.splits)

lemma f32_store_other: "idx \<noteq> Some i \<Longrightarrow> f32_store data idx v ! i = data ! i"
  by (cases idx) (simp_all add: f32_store_def)

lemma write_param_length: "length (write_param layout param data) = length data"
  by (cases param) (simp_all add: f32_store_length Let_def)

lemma write_param_frame:
  "i \<notin> named_slots layout param \<Longrightarrow> write_param layout param data ! i = data ! i"
  by (cases param; cases "floatOffset layout param")
     (auto simp: named_slots_def Let_def f32_store_other)

lemma writeParamsToBuffer_length:
  "length (writeParamsToBuffer data params layout) = length data"
  by (induction params arbitrary: data) (simp_all add: write_param_length)

lemma writeParamsToBuffer_frame:
  "\<forall>param \<in> set params. i \<notin> named_slots layout param \<Longrightarrow>
   writeParamsToBuffer data params layout ! i = data ! i"
  by (induction params arbitrary: data) (simp_all add: write_param_frame)

lemma layout_step_fst: "fst st \<le> fst (layout_step param st)"
  by (simp add: layout_step_def Let_def)

lemma layout_loop_mono: "fst st \<le> fst (layout_loop params st)"
proof (induction params arbitrary: st)
  case Nil
  show ?case by simp
next
  case (Cons p ps)
  have "fst st \<le> fst (layout_step p st)" by (rule layout_step_fst)
  also have "\<dots> \<le> fst (layout_loop ps (layout_step p st))" by (rule Cons.IH)
  finally show ?case by simp
qed

lemma layout_loop_notin:
  "k \<notin> param_id ` set params \<Longrightarrow> snd (layout_loop params st) k = snd st k"
  by (induction params arbitrary: st) (auto simp: layout_step_def Let_def)

lemma align_mod:
  assumes "0 < a" shows "(c + (a - c mod a) mod a) mod a = (0::nat)"
proof (cases "c mod a = 0")
  case True
  then show ?thesis by simp
next
  case False
  have lt: "c mod a < a" using assms by simp
  have pad: "(a - c mod a) mod a = a - c mod a" using False lt by simp
  have "c + (a - c mod a) = (c div a + 1) * a"
  proof -
    have "c div a * a + c mod a = c" by simp
    then have "c + (a - c mod a) = c div a * a + (c mod a + (a - c mod a))" by linarith
    also have "c mod a + (a - c mod a) = a" using lt by simp
    finally show ?thesis by simp
  qed
  then show ?thesis by (simp add: pad)
qed

lemma layout_step_offset:
  "\<exists>off. fst st \<le> off \<and> off mod param_size param = 0
      \<and> off + param_size param = fst (layout_step param st)
      \<and> snd (layout_step param st)
          = (if param_id param = ''__proto__'' then snd st else (snd st)(param_id param \<mapsto> off))"
proof -
  define a where "a = param_size param"
  have apos: "0 < a" by (simp add: a_def param_size_def)
  define off where "off = fst st + (a - fst st mod a) mod a"
  have step: "layout_step param st
      = (off + a, if param_id param = ''__proto__'' then snd st else (snd st)(param_id param \<mapsto> off))"
    unfolding layout_step_def Let_def off_def a_def param_size_def by simp
  have "off mod a = 0" unfolding off_def by (rule align_mod [OF apos])
  moreover have "fst st \<le> off" unfolding off_def by simp
  ultimately show ?thesis
    unfolding step a_def [symmetric] by simp
qed

lemma layout_loop_proto:
  "snd (layout_loop params st) ''__proto__'' = snd st ''__proto__''"
  by (induction params arbitrary: st) (simp_all add: layout_step_def Let_def)

lemma layout_loop_offset:
  "distinct (map param_id params) \<Longrightarrow> p \<in> set params \<Longrightarrow> param_id p \<noteq> ''__proto__'' \<Longrightarrow>
   \<exists>off. snd (layout_loop params st) (param_id p) = Some off \<and> fst st \<le> off
      \<and> off mod param_size p = 0 \<and> off + param_size p \<le> fst (layout_loop params st)"
proof (induction params arbitrary: st)
  case Nil
  then show ?case by simp
next
  case (Cons x xs)
  show ?case
  proof (cases "p = x")
    case True
    obtain off where off: "fst st \<le> off" "off mod param_size x = 0"
        "off + param_size x = fst (layout_step x st)"
        "snd (layout_step x st)
           = (if param_id x = ''__proto__'' then snd st else (snd st)(param_id x \<mapsto> off))"
      using layout_step_offset [of st x] by (elim exE conjE)
    have at: "snd (layout_step x st) (param_id x) = Some off"
      using off(4) Cons.prems(3) True by simp
    have notin: "param_id x \<notin> param_id ` set xs" using Cons.prems(1) by simp
    have "snd (layout_loop xs (layout_step x st)) (param_id x) = Some off"
      using layout_loop_notin [OF notin] at by simp
    moreover have "off + param_size x \<le> fst (layout_loop xs (layout_step x st))"
      using layout_loop_mono [of "layout_step x st" xs] off(3) by simp
    ultimately show ?thesis using True off(1,2) by simp
  next
    case False
    then have mem: "p \<in> set xs" using Cons.prems(2) by simp
    have d: "distinct (map param_id xs)" using Cons.prems(1) by simp
    obtain off where off: "snd (layout_loop xs (layout_step x st)) (param_id p) = Some off"
        "fst (layout_step x st) \<le> off" "off mod param_size p = 0"
        "off + param_size p \<le> fst (layout_loop xs (layout_step x st))"
      using Cons.IH [OF d mem Cons.prems(3), of "layout_step x st"] by (elim exE conjE)
    have "fst st \<le> off" using layout_step_fst [of st x] off(2) by linarith
    then show ?thesis using off by simp
  qed
qed

lemma layout_loop_disjoint:
  "distinct (map param_id params) \<Longrightarrow> p \<in> set params \<Longrightarrow> q \<in> set params \<Longrightarrow> p \<noteq> q \<Longrightarrow>
   param_id p \<noteq> ''__proto__'' \<Longrightarrow> param_id q \<noteq> ''__proto__'' \<Longrightarrow>
   snd (layout_loop params st) (param_id p) = Some op \<Longrightarrow>
   snd (layout_loop params st) (param_id q) = Some oq \<Longrightarrow>
   op + param_size p \<le> oq \<or> oq + param_size q \<le> op"
proof (induction params arbitrary: st)
  case Nil
  then show ?case by simp
next
  case (Cons x xs)
  have d: "distinct (map param_id xs)" and notin: "param_id x \<notin> param_id ` set xs"
    using Cons.prems(1) by simp_all
  obtain ox where ox: "ox + param_size x = fst (layout_step x st)"
      "snd (layout_step x st)
         = (if param_id x = ''__proto__'' then snd st else (snd st)(param_id x \<mapsto> ox))"
    using layout_step_offset [of st x] by (elim exE conjE)
  have atx: "snd (layout_loop xs (layout_step x st)) (param_id x) = Some ox"
    if "param_id x \<noteq> ''__proto__''"
    using layout_loop_notin [OF notin] ox(2) that by simp
  have later: "ox + param_size x \<le> off"
    if "r \<in> set xs" "param_id r \<noteq> ''__proto__''"
       "snd (layout_loop xs (layout_step x st)) (param_id r) = Some off" for r off
    using layout_loop_offset [OF d that(1,2), of "layout_step x st"] that(3) ox(1) by auto
  consider (px) "p = x" "q \<in> set xs" | (qx) "q = x" "p \<in> set xs" | (both) "p \<in> set xs" "q \<in> set xs"
    using Cons.prems(2,3,4) by auto
  then show ?case
  proof cases
    case px
    have "op = ox" using Cons.prems(7) atx px(1) Cons.prems(5) by simp
    moreover have "ox + param_size x \<le> oq" using later [OF px(2) Cons.prems(6)] Cons.prems(8) by simp
    ultimately show ?thesis using px(1) by simp
  next
    case qx
    have "oq = ox" using Cons.prems(8) atx qx(1) Cons.prems(6) by simp
    moreover have "ox + param_size x \<le> op" using later [OF qx(2) Cons.prems(5)] Cons.prems(7) by simp
    ultimately show ?thesis using qx(1) by simp
  next
    case both
    show ?thesis
      using Cons.IH [OF d both Cons.prems(4,5,6), of "layout_step x st"] Cons.prems(7,8) by simp
  qed
qed

lemma param_size_cases: "param_size p = (if param_type p = float then 4 else 16)"
  by (cases p) (simp_all add: param_size_def)

lemma offsetMap_calculateUniformLayout:
  "offsetMap (calculateUniformLayout params start) = snd (layout_loop params (start, Map.empty))"
  by (simp add: calculateUniformLayout_def Let_def)

lemma named_slot_in_region:
  assumes "offsetMap layout (param_id p) = Some off" and "i \<in> named_slots layout p"
  shows "off \<le> 4 * i \<and> 4 * i + 4 \<le> off + param_size p"
proof -
  have m: "off mod 4 = 0" and fo: "floatOffset layout p = Some (off div 4)"
    using assms by (auto simp: named_slots_def floatOffset_def split: if_splits)
  have off: "off = 4 * (off div 4)" using m by presburger
  have "i = off div 4 \<or> (param_type p \<noteq> float \<and> (i = off div 4 + 1 \<or> i = off div 4 + 2))"
    using assms(2) fo by (auto simp: named_slots_def split: if_splits)
  then show ?thesis
    using off by (auto simp: param_size_cases)
qed

lemma calc_layout_named:
  "offsetMap (calculateUniformLayout params start) (param_id p) = Some off \<Longrightarrow>
   param_id p \<noteq> ''__proto__''"
  using layout_loop_proto [of params "(start, Map.empty)"]
  by (auto simp: offsetMap_calculateUniformLayout)

lemma calc_layout_offset:
  assumes "distinct (map param_id params)" and "p \<in> set params"
    and "offsetMap (calculateUniformLayout params start) (param_id p) = Some off"
  shows "start \<le> off \<and> off mod param_size p = 0
           \<and> off + param_size p \<le> size_bytes (calculateUniformLayout params start)"
proof -
  have np: "param_id p \<noteq> ''__proto__''" using assms(3) by (rule calc_layout_named)
  obtain off' where off': "snd (layout_loop params (start, Map.empty)) (param_id p) = Some off'"
      "fst (start, Map.empty :: string \<rightharpoonup> nat) \<le> off'" "off' mod param_size p = 0"
      "off' + param_size p \<le> fst (layout_loop params (start, Map.empty))"
    using layout_loop_offset [OF assms(1,2) np, of "(start, Map.empty)"] by (elim exE conjE)
  have same: "off' = off"
    using off'(1) assms(3) by (simp add: offsetMap_calculateUniformLayout)
  have "fst (layout_loop params (start, Map.empty)) \<le> size_bytes (calculateUniformLayout params start)"
    by (simp add: calculateUniformLayout_def Let_def)
  then show ?thesis
    using off'(2,3,4) same by simp
qed

lemma calc_layout_padding_slot:
  assumes "distinct (map param_id params)" and "p \<in> set params" and "q \<in> set params"
    and "param_type p \<noteq> float"
    and "offsetMap (calculateUniformLayout params start) (param_id p) = Some off"
  shows "off div 4 + 3 \<notin> named_slots (calculateUniformLayout params start) q"
proof
  let ?L = "calculateUniformLayout params start"
  assume i: "off div 4 + 3 \<in> named_slots ?L q"
  have "off mod param_size p = 0"
    using calc_layout_offset [OF assms(1,2,5)] by simp
  then have m16: "off mod 16 = 0" using assms(4) by (simp add: param_size_cases)
  have off4: "off = 4 * (off div 4)" using m16 by presburger
  show False
  proof (cases "p = q")
    case True
    have "floatOffset ?L p = Some (off div 4)"
      using assms(5) off4 by (simp add: floatOffset_def) presburger
    then show False using i True by (auto simp: named_slots_def split: if_splits)
  next
    case False
    obtain oq where oq: "offsetMap ?L (param_id q) = Some oq"
      using i by (auto simp: named_slots_def floatOffset_def split: option.splits)
    have np: "param_id p \<noteq> ''__proto__''" using assms(5) by (rule calc_layout_named)
    have nq: "param_id q \<noteq> ''__proto__''" using oq by (rule calc_layout_named)
    have dis: "off + param_size p \<le> oq \<or> oq + param_size q \<le> off"
      using layout_loop_disjoint [OF assms(1,2,3) False np nq, of "(start, Map.empty)" off oq] assms(5) oq
      by (simp add: offsetMap_calculateUniformLayout)
    have "oq \<le> 4 * (off div 4 + 3) \<and> 4 * (off div 4 + 3) + 4 \<le> oq + param_size q"
      by (rule named_slot_in_region [OF oq i])
    then show False using dis off4 assms(4) by (simp add: param_size_cases)
  qed
qed

text \<open>
  C7. The three reference cases of the layout packer: \<open>[{id: a, Float}]\<close> at start offset 48
  gives offset 48 for \<open>a\<close> and total size 64; \<open>[{id: c, Color}]\<close> at start offset 0 gives
  offset 0 for \<open>c\<close> and total size 16; \<open>[{id: a, Float}, {id: b, Color}]\<close> at start offset 0
  gives offsets 0 and 16 and total size 32. Labels, values and ranges are arbitrary.
\<close>

theorem calculateUniformLayout_reference_cases:
  "offsetMap (calculateUniformLayout [FloatParam ''a'' la va lo hi st] 48) ''a'' = Some 48
   \<and> size_bytes (calculateUniformLayout [FloatParam ''a'' la va lo hi st] 48) = 64
   \<and> offsetMap (calculateUniformLayout [ColorParam ''c'' lc vc] 0) ''c'' = Some 0
   \<and> size_bytes (calculateUniformLayout [ColorParam ''c'' lc vc] 0) = 16
   \<and> offsetMap (calculateUniformLayout [FloatParam ''a'' la va lo hi st, ColorParam ''b'' lb vb] 0) ''a''
       = Some 0
   \<and> offsetMap (calculateUniformLayout [FloatParam ''a'' la va lo hi st, ColorParam ''b'' lb vb] 0) ''b''
       = Some 16
   \<and> size_bytes (calculateUniformLayout [FloatParam ''a'' la va lo hi st, ColorParam ''b'' lb vb] 0) = 32"
  by (simp add: calculateUniformLayout_def layout_step_def Let_def)

text \<open>
  C10 (as stated). For every layout, the fourth slot of a color is said to keep its
  contents. A layout is free to name that slot for another parameter: with the color \<open>a\<close> at
  byte offset 0 and the float \<open>b\<close> at byte offset 12, slot 3 receives the value of \<open>b\<close>.
\<close>

theorem writeParamsToBuffer_padding_slot_overwritten:
  "param_type (ColorParam ''a'' ''a'' (1, 2, 3)) = color
   \<and> offsetMap overlapping_layout (param_id (ColorParam ''a'' ''a'' (1, 2, 3))) = Some 0
   \<and> writeParamsToBuffer [0, 0, 0, 0] overlapping_params overlapping_layout = [1, 2, 3, 9]
   \<and> writeParamsToBuffer [0, 0, 0, 0] overlapping_params overlapping_layout ! (0 div 4 + 3)
       \<noteq> [0, 0, 0, 0] ! (0 div 4 + 3)"
  by (simp add: overlapping_params_def overlapping_layout_def floatOffset_def f32_store_def Let_def)

text \<open>
  C10 (amended). For every buffer, parameter list and layout, \<^verbatim>\<open>writeParamsToBuffer\<close> keeps
  the buffer's length and leaves every element outside the slots named by the layout's
  offset map unchanged. With the layout that \<^verbatim>\<open>calculateUniformLayout\<close> computes for a
  list of distinct ids, no parameter names the fourth (padding) slot of a color or vec3, and
  that slot keeps its old contents.
\<close>

theorem writeParamsToBuffer_writes_only_named_slots:
  "length (writeParamsToBuffer data params layout) = length data
   \<and> (\<forall>i < length data. i \<notin> (\<Union>p \<in> set params. named_slots layout p) \<longrightarrow>
         writeParamsToBuffer data params layout ! i = data ! i)
   \<and> (distinct (map param_id params) \<longrightarrow>
        (\<forall>p \<in> set params. \<forall>off.
            offsetMap (calculateUniformLayout params start) (param_id p) = Some off \<longrightarrow>
            param_type p \<noteq> float \<longrightarrow>
              off div 4 + 3 \<notin> (\<Union>q \<in> set params. named_slots (calculateUniformLayout params start) q)
              \<and> writeParamsToBuffer data params (calculateUniformLayout params start) ! (off div 4 + 3)
                  = data ! (off div 4 + 3)))"
proof (intro conjI allI impI ballI)
  show "length (writeParamsToBuffer data params layout) = length data"
    by (rule writeParamsToBuffer_length)
next
  fix i assume "i \<notin> (\<Union>p \<in> set params. named_slots layout p)"
  then have "\<forall>p \<in> set params. i \<notin> named_slots layout p" by simp
  then show "writeParamsToBuffer data params layout ! i = data ! i"
    by (rule writeParamsToBuffer_frame)
next
  let ?L = "calculateUniformLayout params start"
  fix p off
  assume d: "distinct (map param_id params)" and p: "p \<in> set params"
    and off: "offsetMap ?L (param_id p) = Some off" and ty: "param_type p \<noteq> float"
  have "\<forall>q \<in> set params. off div 4 + 3 \<notin> named_slots ?L q"
    using calc_layout_padding_slot [OF d p _ ty off] by blast
  then show "off div 4 + 3 \<notin> (\<Union>q \<in> set params. named_slots ?L q)" by simp
next
  let ?L = "calculateUniformLayout params start"
  fix p off
  assume d: "distinct (map param_id params)" and p: "p \<in> set params"
    and off: "offsetMap ?L (param_id p) = Some off" and ty: "param_type p \<noteq> float"
  have "\<forall>q \<in> set params. off div 4 + 3 \<notin> named_slots ?L q"
    using calc_layout_padding_slot [OF d p _ ty off] by blast
  then show "writeParamsToBuffer data params ?L ! (off div 4 + 3) = data ! (off div 4 + 3)"
    by (rule writeParamsToBuffer_frame)
qed

lemma six_layout:
  "calculateUniformLayout six_colors STANDARD_HEADER_SIZE =
     \<lparr>size_bytes = 144,
      offsetMap = [''c1'' \<mapsto> 48, ''c2'' \<mapsto> 64, ''c3'' \<mapsto> 80, ''c4'' \<mapsto> 96, ''c5'' \<mapsto> 112, ''c6'' \<mapsto> 128]\<rparr>"
  by (simp add: six_colors_def calculateUniformLayout_def layout_step_def Let_def STANDARD_HEADER_SIZE_def)

lemma list_update_Cons_numeral:
  "(x # xs)[numeral v := a] = x # xs[numeral v - 1 := a]"
  by (simp add: numeral_eq_Suc)

lemma replicate_numeral:
  "replicate (numeral v) x = x # replicate (numeral v - 1) x"
  by (simp add: numeral_eq_Suc)

text \<open>
  C6 (as stated). Six colors behind the 48-byte header need 144 bytes, more than the
  128-byte uniform block. Nothing is rejected: the packer returns the 144-byte layout, and
  writing the parameters into the 32-float buffer drops the sixth color without a trace.
\<close>

theorem oversized_layout_not_rejected:
  "TOTAL_BUFFER_SIZE < size_bytes (calculateUniformLayout six_colors STANDARD_HEADER_SIZE)
   \<and> writeParamsToBuffer (replicate (TOTAL_BUFFER_SIZE div 4) 0) six_colors
         (calculateUniformLayout six_colors STANDARD_HEADER_SIZE)
       = [0,0,0,0,0,0,0,0,0,0,0,0, 1,1,1,0, 2,2,2,0, 3,3,3,0, 4,4,4,0, 5,5,5,0]"
  unfolding six_layout
  by (simp add: six_colors_def floatOffset_def f32_store_def Let_def TOTAL_BUFFER_SIZE_def
        list_update_Cons_numeral replicate_numeral)

lemma layout_step_grows: "fst st + 4 \<le> fst (layout_step param st)"
  by (simp add: layout_step_def Let_def)

lemma layout_loop_grows: "fst st + 4 * length params \<le> fst (layout_loop params st)"
proof (induction params arbitrary: st)
  case Nil
  show ?case by simp
next
  case (Cons p ps)
  have "fst st + 4 * length (p # ps) = (fst st + 4) + 4 * length ps" by simp
  also have "\<dots> \<le> fst (layout_step p st) + 4 * length ps"
    using layout_step_grows [of st p] by simp
  also have "\<dots> \<le> fst (layout_loop ps (layout_step p st))" by (rule Cons.IH)
  finally show ?case by simp
qed

lemma write_param_beyond_end:
  assumes "floatOffset layout p = Some k" and "length data \<le> k"
  shows "write_param layout p data = data"
  using assms by (cases p) (simp_all add: f32_store_def Let_def)

text \<open>
  C6 (amended). \<^verbatim>\<open>calculateUniformLayout\<close> rejects nothing: for every parameter list it
  returns a layout, whose size is at least the start offset plus four bytes per parameter
  and so has no upper bound; \<^verbatim>\<open>writeParamsToBuffer\<close> keeps the buffer's length, and a
  parameter whose float offset lies at or beyond the end of the buffer is dropped whole.
\<close>

theorem oversized_layout_silently_truncated:
  "startOffset + 4 * length params \<le> size_bytes (calculateUniformLayout params startOffset)
   \<and> length (writeParamsToBuffer data params layout) = length data
   \<and> (\<forall>p k. floatOffset layout p = Some k \<longrightarrow> length data \<le> k \<longrightarrow>
          write_param layout p data = data)"
proof (intro conjI allI impI)
  have "startOffset + 4 * length params \<le> fst (layout_loop params (startOffset, Map.empty))"
    using layout_loop_grows [of "(startOffset, Map.empty)" params] by simp
  also have "\<dots> \<le> size_bytes (calculateUniformLayout params startOffset)"
    by (simp add: calculateUniformLayout_def Let_def)
  finally show "startOffset + 4 * length params
      \<le> size_bytes (calculateUniformLayout params startOffset)" .
next
  show "length (writeParamsToBuffer data params layout) = length data"
    by (rule writeParamsToBuffer_length)
next
  fix p k assume "floatOffset layout p = Some k" "length data \<le> k"
  then show "write_param layout p data = data" by (rule write_param_beyond_end)
qed

text \<open>
  C6 (amended), at the six colors: the sixth color has float offset 32, the length of the
  buffer, and writing it changes nothing.
\<close>

theorem oversized_layout_silently_truncated_witness:
  "floatOffset (calculateUniformLayout six_colors STANDARD_HEADER_SIZE)
       (ColorParam ''c6'' ''c6'' (6, 6, 6)) = Some 32
   \<and> length (replicate (TOTAL_BUFFER_SIZE div 4) (0::real)) \<le> 32
   \<and> write_param (calculateUniformLayout six_colors STANDARD_HEADER_SIZE)
         (ColorParam ''c6'' ''c6'' (6, 6, 6)) (replicate (TOTAL_BUFFER_SIZE div 4) 0)
       = replicate (TOTAL_BUFFER_SIZE div 4) 0"
proof -
  have fo: "floatOffset (calculateUniformLayout six_colors STANDARD_HEADER_SIZE)
       (ColorParam ''c6'' ''c6'' (6, 6, 6)) = Some 32"
    unfolding six_layout by (simp add: floatOffset_def)
  have len: "length (replicate (TOTAL_BUFFER_SIZE div 4) (0::real)) \<le> 32"
    by (simp add: TOTAL_BUFFER_SIZE_def)
  have "write_param (calculateUniformLayout six_colors STANDARD_HEADER_SIZE)
         (ColorParam ''c6'' ''c6'' (6, 6, 6)) (replicate (TOTAL_BUFFER_SIZE div 4) 0)
       = replicate (TOTAL_BUFFER_SIZE div 4) 0"
    using oversized_layout_silently_truncated
      [of 0 "[]" "replicate (TOTAL_BUFFER_SIZE div 4) 0"
          "calculateUniformLayout six_colors STANDARD_HEADER_SIZE"] fo len
    by blast
  then show ?thesis using fo len by simp
qed

lemma two_layout:
  "calculateUniformLayout two_params 0 = \<lparr>size_bytes = 32, offsetMap = [''a'' \<mapsto> 0, ''b'' \<mapsto> 16]\<rparr>"
  by (simp add: two_params_def calculateUniformLayout_def layout_step_def Let_def)

text \<open>
  C10 (amended), at a concrete input: a float and a color written into a buffer of eight
  nines. The color sits at byte offset 16; slots 1, 2 and 3 are named by no parameter and
  keep the nine, and so does the color's padding slot 7.
\<close>

theorem writeParamsToBuffer_writes_only_named_slots_witness:
  "distinct (map param_id two_params)
   \<and> ColorParam ''b'' ''b'' (2, 3, 4) \<in> set two_params
   \<and> offsetMap (calculateUniformLayout two_params 0) ''b'' = Some 16
   \<and> 2 \<notin> (\<Union>p \<in> set two_params. named_slots (calculateUniformLayout two_params 0) p)
   \<and> writeParamsToBuffer [9, 9, 9, 9, 9, 9, 9, 9] two_params (calculateUniformLayout two_params 0) ! 2 = 9
   \<and> writeParamsToBuffer [9, 9, 9, 9, 9, 9, 9, 9] two_params (calculateUniformLayout two_params 0) ! 7 = 9
   \<and> length (writeParamsToBuffer [9, 9, 9, 9, 9, 9, 9, 9] two_params (calculateUniformLayout two_params 0)) = 8"
proof -
  let ?d = "[9, 9, 9, 9, 9, 9, 9, 9] :: real list"
  let ?L = "calculateUniformLayout two_params 0"
  let ?b = "ColorParam ''b'' ''b'' (2, 3, 4)"
  note T = writeParamsToBuffer_writes_only_named_slots [of ?d two_params ?L 0]
  have d: "distinct (map param_id two_params)" by (simp add: two_params_def)
  have b: "?b \<in> set two_params" by (simp add: two_params_def)
  have off: "offsetMap ?L (param_id ?b) = Some 16" unfolding two_layout by simp
  have ty: "param_type ?b \<noteq> float" by simp
  have un: "2 \<notin> (\<Union>p \<in> set two_params. named_slots ?L p)"
    unfolding two_layout by (simp add: two_params_def named_slots_def floatOffset_def)
  from T have len: "length (writeParamsToBuffer ?d two_params ?L) = length ?d" by (elim conjE)
  from T have "\<forall>i < length ?d. i \<notin> (\<Union>p \<in> set two_params. named_slots ?L p) \<longrightarrow>
         writeParamsToBuffer ?d two_params ?L ! i = ?d ! i"
    by (elim conjE)
  from this [rule_format, of 2] un
  have p2: "writeParamsToBuffer ?d two_params ?L ! 2 = 9" by simp
  from T have "distinct (map param_id two_params) \<longrightarrow>
        (\<forall>p \<in> set two_params. \<forall>off.
            offsetMap ?L (param_id p) = Some off \<longrightarrow>
            param_type p \<noteq> float \<longrightarrow>
              off div 4 + 3 \<notin> (\<Union>q \<in> set two_params. named_slots ?L q)
              \<and> writeParamsToBuffer ?d two_params ?L ! (off div 4 + 3) = ?d ! (off div 4 + 3))"
    by (elim conjE)
  from this [rule_format, OF d b off ty]
  have p7: "writeParamsToBuffer ?d two_params ?L ! 7 = 9" by simp
  show ?thesis using d b off un len p2 p7 by simp
qed

section \<open>Theorems: renderer\<close>

lemma scanMessages_fst:
  "fst (scanMessages messages acc) = (fst acc \<or> (\<exists>m \<in> set messages. msg_type m = error))"
  by (induction messages arbitrary: acc) auto

lemma scanMessages_snd:
  "snd (scanMessages messages acc)
     = snd acc @ map reportError (filter (\<lambda>m. msg_type m = error) messages)"
  by (induction messages arbitrary: acc) auto

lemma compilePipeline_failed:
  assumes "\<exists>m \<in> set messages. msg_type m = error"
  shows "compilePipeline code messages screenFormat s
           = s\<lparr>shaderModules := shaderModules s @ [code],
               errors := errors s @ map reportError (filter (\<lambda>m. msg_type m = error) messages)\<rparr>"
proof -
  have ne: "0 < length messages" using assms by auto
  show ?thesis
    using assms ne by (simp add: compilePipeline_def Let_def scanMessages_fst scanMessages_snd)
qed

lemma compilePipeline_succeeded:
  assumes "\<not> (\<exists>m \<in> set messages. msg_type m = error)"
  shows "compilePipeline code messages screenFormat s
           = s\<lparr>shaderModules := shaderModules s @ [code],
               clearErrors := clearErrors s + 1,
               integratorPipeline :=
                 Some (RenderPipeline ''Integrator Pipeline'' code ''fs_main'' ''rgba16float''),
               displayPipeline :=
                 Some (RenderPipeline ''Display Pipeline'' code ''fs_display'' screenFormat),
               frameIndex := 0\<rparr>"
proof -
  have "filter (\<lambda>m. msg_type m = error) messages = []"
    using assms by (simp add: filter_empty_conv)
  then show ?thesis
    using assms by (simp add: compilePipeline_def Let_def scanMessages_fst scanMessages_snd)
qed

lemma ensureHistory_textures:
  "historyTextureA (ensureHistory width height s) \<noteq> None
   \<and> historyTextureB (ensureHistory width height s) \<noteq> None"
  by (simp add: ensureHistory_def needsHistory_def recreateHistory_def)

lemma ensureHistory_frameIndex:
  "frameIndex (ensureHistory width height s)
     = (if needsHistory width height s then 0 else frameIndex s)"
  by (simp add: ensureHistory_def recreateHistory_def)

lemma ensureHistory_kept:
  "frames (ensureHistory width height s) = frames s"
  "integratorPipeline (ensureHistory width height s) = integratorPipeline s"
  "displayPipeline (ensureHistory width height s) = displayPipeline s"
  "recorder (ensureHistory width height s) = recorder s"
  "recordingConfig (ensureHistory width height s) = recordingConfig s"
  "isRecording (ensureHistory width height s) = isRecording s"
  "recordedFrames (ensureHistory width height s) = recordedFrames s"
  "progress (ensureHistory width height s) = progress s"
  "stopPending (ensureHistory width height s) = stopPending s"
  "mountParams (ensureHistory width height s) = mountParams s"
  "paramsRef (ensureHistory width height s) = paramsRef s"
  "deviceRef (ensureHistory width height s) = deviceRef s"
  "contextRef (ensureHistory width height s) = contextRef s"
  "uniformBufferRef (ensureHistory width height s) = uniformBufferRef s"
  by (simp_all add: ensureHistory_def recreateHistory_def)

lemma recordingTick_kept:
  "frames (snd (recordingTick wallClock s)) = frames s"
  "frameIndex (snd (recordingTick wallClock s)) = frameIndex s"
  "historyTextureA (snd (recordingTick wallClock s)) = historyTextureA s"
  "historyTextureB (snd (recordingTick wallClock s)) = historyTextureB s"
  "integratorPipeline (snd (recordingTick wallClock s)) = integratorPipeline s"
  "displayPipeline (snd (recordingTick wallClock s)) = displayPipeline s"
  "recordingConfig (snd (recordingTick wallClock s)) = recordingConfig s"
  "isRecording (snd (recordingTick wallClock s)) = isRecording s"
  "mountParams (snd (recordingTick wallClock s)) = mountParams s"
  "paramsRef (snd (recordingTick wallClock s)) = paramsRef s"
  "deviceRef (snd (recordingTick wallClock s)) = deviceRef s"
  "contextRef (snd (recordingTick wallClock s)) = contextRef s"
  "uniformBufferRef (snd (recordingTick wallClock s)) = uniformBufferRef s"
  by (simp_all add: recordingTick_def recorder_stop_def Let_def split: option.splits)

lemma layout_loop_lower:
  "snd (layout_loop params st) k = Some off \<Longrightarrow> snd st k = Some off \<or> fst st \<le> off"
proof (induction params arbitrary: st)
  case Nil
  then show ?case by simp
next
  case (Cons x xs)
  from Cons.IH [of "layout_step x st"] Cons.prems
  have "snd (layout_step x st) k = Some off \<or> fst (layout_step x st) \<le> off" by simp
  then show ?case
  proof
    assume a: "snd (layout_step x st) k = Some off"
    obtain off' where o: "fst st \<le> off'"
        "snd (layout_step x st)
           = (if param_id x = ''__proto__'' then snd st else (snd st)(param_id x \<mapsto> off'))"
      using layout_step_offset [of st x] by (elim exE conjE)
    show ?thesis
      using a o by (auto split: if_splits)
  next
    assume "fst (layout_step x st) \<le> off"
    then show ?thesis using layout_step_fst [of st x] by linarith
  qed
qed

lemma calc_layout_lower:
  "offsetMap (calculateUniformLayout params start) k = Some off \<Longrightarrow> start \<le> off"
  using layout_loop_lower [of params "(start, Map.empty)" k off]
  by (simp add: offsetMap_calculateUniformLayout)

lemma header_slots_untouched:
  assumes "4 * i < start"
  shows "writeParamsToBuffer data params (calculateUniformLayout qs start) ! i = data ! i"
proof (rule writeParamsToBuffer_frame, rule ballI)
  fix p assume "p \<in> set params"
  show "i \<notin> named_slots (calculateUniformLayout qs start) p"
  proof
    assume i: "i \<in> named_slots (calculateUniformLayout qs start) p"
    then obtain off where off: "offsetMap (calculateUniformLayout qs start) (param_id p) = Some off"
      by (auto simp: named_slots_def floatOffset_def split: option.splits)
    have "off \<le> 4 * i" using named_slot_in_region [OF off i] by simp
    moreover have "start \<le> off" using off by (rule calc_layout_lower)
    ultimately show False using assms by linarith
  qed
qed

lemma updateUniforms_length:
  "length (updateUniforms width height elapsedTime vol s) = 32"
  by (simp add: updateUniforms_def Let_def writeParamsToBuffer_length TOTAL_BUFFER_SIZE_def)

lemma updateUniforms_header:
  "updateUniforms width height elapsedTime vol s ! 0 = real width"
  "updateUniforms width height elapsedTime vol s ! 1 = real height"
  "updateUniforms width height elapsedTime vol s ! 2 = elapsedTime"
  "updateUniforms width height elapsedTime vol s ! 3 = real (frameIndex s)"
  by (simp_all add: updateUniforms_def Let_def header_slots_untouched STANDARD_HEADER_SIZE_def
        TOTAL_BUFFER_SIZE_def)

lemma render_not_ready: "\<not> renderReady s \<Longrightarrow> render time clientW clientH vol s = s"
  by (auto simp: render_def renderReady_def split: option.splits)

lemma render_ready_eq:
  assumes "renderReady s"
  shows "\<exists>integratorP displayP src dst.
           integratorPipeline s = Some integratorP \<and> displayPipeline s = Some displayP
         \<and> render time clientW clientH vol s =
             serviceCapture
              (submitFrame
                 (updateUniforms (fst (targetSize clientW clientH s)) (snd (targetSize clientW clientH s))
                    (fst (recordingTick ((time - startTime s) * (1 / 1000))
                            (ensureHistory (fst (targetSize clientW clientH s))
                               (snd (targetSize clientW clientH s)) s)))
                    vol
                    (snd (recordingTick ((time - startTime s) * (1 / 1000))
                            (ensureHistory (fst (targetSize clientW clientH s))
                               (snd (targetSize clientW clientH s)) s))))
                 integratorP displayP src dst
                 (snd (recordingTick ((time - startTime s) * (1 / 1000))
                            (ensureHistory (fst (targetSize clientW clientH s))
                               (snd (targetSize clientW clientH s)) s))))"
proof -
  let ?w = "fst (targetSize clientW clientH s)" and ?h = "snd (targetSize clientW clientH s)"
  let ?s1 = "ensureHistory ?w ?h s"
  have st: "startTime ?s1 = startTime s"
    by (simp add: ensureHistory_def recreateHistory_def)
  let ?s2 = "snd (recordingTick ((time - startTime s) * (1 / 1000)) ?s1)"
  obtain ip dp where p: "integratorPipeline s = Some ip" "displayPipeline s = Some dp"
    using assms by (auto simp: renderReady_def)
  obtain a b where t: "historyTextureA ?s2 = Some a" "historyTextureB ?s2 = Some b"
    using ensureHistory_textures [of ?w ?h s] by (auto simp: recordingTick_kept)
  have refs: "deviceRef s" "contextRef s" "uniformBufferRef s"
    using assms by (simp_all add: renderReady_def)
  have "render time clientW clientH vol s =
          serviceCapture (submitFrame (updateUniforms ?w ?h
              (fst (recordingTick ((time - startTime s) * (1 / 1000)) ?s1)) vol ?s2) ip dp a b ?s2)"
    using p t refs st by (simp add: render_def Let_def)
  then show ?thesis using p by blast
qed

lemma serviceCapture_kept:
  "frames (serviceCapture s) = frames s"
  "frameIndex (serviceCapture s) = frameIndex s"
  "recorder (serviceCapture s) = recorder s"
  "stopPending (serviceCapture s) = stopPending s"
  "recordingConfig (serviceCapture s) = recordingConfig s"
  "isRecording (serviceCapture s) = isRecording s"
  "recordedFrames (serviceCapture s) = recordedFrames s"
  "progress (serviceCapture s) = progress s"
  "integratorPipeline (serviceCapture s) = integratorPipeline s"
  "displayPipeline (serviceCapture s) = displayPipeline s"
  "deviceRef (serviceCapture s) = deviceRef s"
  "contextRef (serviceCapture s) = contextRef s"
  "uniformBufferRef (serviceCapture s) = uniformBufferRef s"
  by (simp_all add: serviceCapture_def)

lemma submitFrame_kept:
  "recorder (submitFrame data ip dp src dst s) = recorder s"
  "stopPending (submitFrame data ip dp src dst s) = stopPending s"
  "recordingConfig (submitFrame data ip dp src dst s) = recordingConfig s"
  "isRecording (submitFrame data ip dp src dst s) = isRecording s"
  "recordedFrames (submitFrame data ip dp src dst s) = recordedFrames s"
  "progress (submitFrame data ip dp src dst s) = progress s"
  "integratorPipeline (submitFrame data ip dp src dst s) = integratorPipeline s"
  "displayPipeline (submitFrame data ip dp src dst s) = displayPipeline s"
  "deviceRef (submitFrame data ip dp src dst s) = deviceRef s"
  "contextRef (submitFrame data ip dp src dst s) = contextRef s"
  "uniformBufferRef (submitFrame data ip dp src dst s) = uniformBufferRef s"
  "frameIndex (submitFrame data ip dp src dst s) = frameIndex s + 1"
  by (simp_all add: submitFrame_def Let_def)

lemma submitFrame_frames:
  "\<exists>f. frames (submitFrame data ip dp src dst s) = frames s @ [f]
       \<and> uniformData f = data \<and> integratorPipe f = ip \<and> displayPipe f = dp
       \<and> inputIsNoise f = (frameIndex s = 0) \<and> recorderAtSubmit f = recorder s"
  by (simp add: submitFrame_def Let_def)

lemma render_frame:
  assumes "renderReady s"
  shows "\<exists>f. frames (render time clientW clientH vol s) = frames s @ [f]
       \<and> integratorPipeline s = Some (integratorPipe f)
       \<and> displayPipeline s = Some (displayPipe f)
       \<and> uniformData f ! 3 =
           real (frameIndex (ensureHistory (fst (targetSize clientW clientH s))
                               (snd (targetSize clientW clientH s)) s))
       \<and> uniformData f ! 2 =
           fst (recordingTick ((time - startTime s) * (1 / 1000))
                  (ensureHistory (fst (targetSize clientW clientH s))
                     (snd (targetSize clientW clientH s)) s))
       \<and> recorderAtSubmit f =
           recorder (snd (recordingTick ((time - startTime s) * (1 / 1000))
                  (ensureHistory (fst (targetSize clientW clientH s))
                     (snd (targetSize clientW clientH s)) s)))
       \<and> frameIndex (render time clientW clientH vol s) =
           frameIndex (ensureHistory (fst (targetSize clientW clientH s))
                               (snd (targetSize clientW clientH s)) s) + 1"
proof -
  let ?s1 = "ensureHistory (fst (targetSize clientW clientH s)) (snd (targetSize clientW clientH s)) s"
  let ?tick = "recordingTick ((time - startTime s) * (1 / 1000)) ?s1"
  let ?data = "updateUniforms (fst (targetSize clientW clientH s)) (snd (targetSize clientW clientH s))
                 (fst ?tick) vol (snd ?tick)"
  obtain ip dp src dst where pipes: "integratorPipeline s = Some ip" "displayPipeline s = Some dp"
    and r: "render time clientW clientH vol s = serviceCapture (submitFrame ?data ip dp src dst (snd ?tick))"
    using render_ready_eq [OF assms, of time clientW clientH vol] by (elim exE conjE)
  obtain f where f: "frames (submitFrame ?data ip dp src dst (snd ?tick)) = frames (snd ?tick) @ [f]"
      "uniformData f = ?data" "integratorPipe f = ip" "displayPipe f = dp"
      "recorderAtSubmit f = recorder (snd ?tick)"
    using submitFrame_frames [of ?data ip dp src dst "snd ?tick"] by (elim exE conjE)
  have "frames (render time clientW clientH vol s) = frames s @ [f]"
    using f(1) by (simp add: r serviceCapture_kept recordingTick_kept ensureHistory_kept)
  moreover have "uniformData f ! 3 = real (frameIndex ?s1)"
    by (simp add: f(2) updateUniforms_header recordingTick_kept)
  moreover have "uniformData f ! 2 = fst ?tick"
    by (simp add: f(2) updateUniforms_header)
  moreover have "frameIndex (render time clientW clientH vol s) = frameIndex ?s1 + 1"
    by (simp add: r serviceCapture_kept submitFrame_kept recordingTick_kept)
  ultimately show ?thesis
    using pipes f(3,4,5) by auto
qed

lemma renderReady_initialised: "renderReady initialised"
  by (simp add: initialised_def initWebGPU_def compilePipeline_def mounted_def renderReady_def Let_def)

lemma pipelines_initialised:
  "integratorPipeline initialised
     = Some (RenderPipeline ''Integrator Pipeline'' ''shader'' ''fs_main'' ''rgba16float'')"
  "displayPipeline initialised
     = Some (RenderPipeline ''Display Pipeline'' ''shader'' ''fs_display'' ''bgra8unorm'')"
  "frameIndex initialised = 0" "errors initialised = []" "frames initialised = []"
  "historyTextureA initialised = None" "capturePending initialised = 0"
  "isRecording initialised = False"
  by (simp_all add: initialised_def initWebGPU_def compilePipeline_def mounted_def Let_def)

text \<open>
  C5. When the diagnostics of a compilation hold at least one error, \<^verbatim>\<open>compilePipeline\<close>
  builds no pipeline: both pipeline refs and \<^verbatim>\<open>frameIndex\<close> stay as they are, every error
  diagnostic is passed to \<^verbatim>\<open>onError\<close> in order, \<^verbatim>\<open>onClearError\<close> is not called, and the
  next frame is drawn with the pipelines that were active before. Without an error
  diagnostic both pipelines are replaced by ones built from the new code, \<^verbatim>\<open>onClearError\<close>
  is called once and \<^verbatim>\<open>frameIndex\<close> is 0.
\<close>

theorem compilePipeline_error_keeps_pipelines:
  "(if filter (\<lambda>m. msg_type m = error) messages \<noteq> []
    then integratorPipeline (compilePipeline code messages screenFormat s) = integratorPipeline s
       \<and> displayPipeline (compilePipeline code messages screenFormat s) = displayPipeline s
       \<and> frameIndex (compilePipeline code messages screenFormat s) = frameIndex s
       \<and> errors (compilePipeline code messages screenFormat s)
           = errors s @ map reportError (filter (\<lambda>m. msg_type m = error) messages)
       \<and> clearErrors (compilePipeline code messages screenFormat s) = clearErrors s
       \<and> (renderReady s \<longrightarrow>
            (\<exists>f. frames (render time clientW clientH vol (compilePipeline code messages screenFormat s))
                    = frames s @ [f]
                \<and> integratorPipeline s = Some (integratorPipe f)
                \<and> displayPipeline s = Some (displayPipe f)))
    else integratorPipeline (compilePipeline code messages screenFormat s)
           = Some (RenderPipeline ''Integrator Pipeline'' code ''fs_main'' ''rgba16float'')
       \<and> displayPipeline (compilePipeline code messages screenFormat s)
           = Some (RenderPipeline ''Display Pipeline'' code ''fs_display'' screenFormat)
       \<and> frameIndex (compilePipeline code messages screenFormat s) = 0
       \<and> errors (compilePipeline code messages screenFormat s) = errors s
       \<and> clearErrors (compilePipeline code messages screenFormat s) = clearErrors s + 1)"
proof (cases "filter (\<lambda>m. msg_type m = error) messages = []")
  case True
  then have none: "\<not> (\<exists>m \<in> set messages. msg_type m = error)"
    by (simp add: filter_empty_conv)
  show ?thesis
    using True by (simp add: compilePipeline_succeeded [OF none])
next
  case False
  then have some: "\<exists>m \<in> set messages. msg_type m = error"
    by (simp add: filter_empty_conv)
  let ?s' = "compilePipeline code messages screenFormat s"
  have eq: "?s' = s\<lparr>shaderModules := shaderModules s @ [code],
               errors := errors s @ map reportError (filter (\<lambda>m. msg_type m = error) messages)\<rparr>"
    by (rule compilePipeline_failed [OF some])
  have later: "\<exists>f. frames (render time clientW clientH vol ?s') = frames s @ [f]
                \<and> integratorPipeline s = Some (integratorPipe f)
                \<and> displayPipeline s = Some (displayPipe f)" if ready: "renderReady s"
  proof -
    have ready': "renderReady ?s'" using ready by (simp add: eq renderReady_def)
    obtain f where f: "frames (render time clientW clientH vol ?s') = frames ?s' @ [f]"
        "integratorPipeline ?s' = Some (integratorPipe f)"
        "displayPipeline ?s' = Some (displayPipe f)"
      using render_frame [OF ready', of time clientW clientH vol] by (elim exE conjE)
    have "frames ?s' = frames s" "integratorPipeline ?s' = integratorPipeline s"
      "displayPipeline ?s' = displayPipeline s"
      by (simp_all add: eq)
    then show ?thesis using f by auto
  qed
  show ?thesis
    using False later by (simp add: eq)
qed

text \<open>
  C5, at a concrete input: a broken shader, with one warning and one error, compiled on the
  initialised renderer. The error is reported and the next frame uses the first pipeline.
\<close>

theorem compilePipeline_error_keeps_pipelines_witness:
  "filter (\<lambda>m. msg_type m = error) bad_diagnostics \<noteq> []
   \<and> renderReady initialised
   \<and> integratorPipeline (compilePipeline ''broken'' bad_diagnostics ''bgra8unorm'' initialised)
       = Some (RenderPipeline ''Integrator Pipeline'' ''shader'' ''fs_main'' ''rgba16float'')
   \<and> errors (compilePipeline ''broken'' bad_diagnostics ''bgra8unorm'' initialised)
       = [\<lparr>err_type = compilation, err_message = ''unresolved identifier'',
           err_lineNum = Some 12, err_linePos = Some 5\<rparr>]
   \<and> (\<exists>f. frames (render 16 800 600 0 (compilePipeline ''broken'' bad_diagnostics ''bgra8unorm'' initialised))
             = [f]
          \<and> integratorPipe f = RenderPipeline ''Integrator Pipeline'' ''shader'' ''fs_main'' ''rgba16float'')"
proof -
  have bad: "filter (\<lambda>m. msg_type m = error) bad_diagnostics \<noteq> []"
    by (simp add: bad_diagnostics_def)
  have errs: "map reportError (filter (\<lambda>m. msg_type m = error) bad_diagnostics)
      = [\<lparr>err_type = compilation, err_message = ''unresolved identifier'',
           err_lineNum = Some 12, err_linePos = Some 5\<rparr>]"
    by (simp add: bad_diagnostics_def reportError_def)
  note T = compilePipeline_error_keeps_pipelines
    [of bad_diagnostics "''broken''" "''bgra8unorm''" initialised 16 800 600 0]
  show ?thesis
    using T bad renderReady_initialised errs
    by (simp add: pipelines_initialised) metis
qed

lemma renders_append: "renders (as @ bs) s = renders bs (renders as s)"
  by (induction as arbitrary: s) auto

lemma recordingTick_recording:
  assumes "recordingConfig s = Some config" and "isRecording s"
  shows "fst (recordingTick wallClock s) = real (recordedFrames s) / fps config"
    and "recordedFrames (snd (recordingTick wallClock s)) = recordedFrames s + 1"
    and "progress (snd (recordingTick wallClock s))
           = progress s @ [(True, max 0 (duration config - real (recordedFrames s) / fps config))]"
    and "recorder (snd (recordingTick wallClock s))
           = (if duration config \<le> real (recordedFrames s) / fps config \<and> recorder s = Some recording
              then Some inactive else recorder s)"
    and "stopPending (snd (recordingTick wallClock s))
           = (if duration config \<le> real (recordedFrames s) / fps config \<and> recorder s = Some recording
              then True else stopPending s)"
  using assms by (simp_all add: recordingTick_def recorder_stop_def Let_def)

lemma recordingTick_inactive:
  assumes "recorder s = Some inactive"
  shows "recorder (snd (recordingTick wallClock s)) = Some inactive"
    and "stopPending (snd (recordingTick wallClock s)) = stopPending s"
  using assms by (simp_all add: recordingTick_def recorder_stop_def Let_def split: option.splits)

lemma render_keeps_ready:
  assumes "renderReady s"
  shows "renderReady (render time clientW clientH vol s)"
    and "recordingConfig (render time clientW clientH vol s) = recordingConfig s"
    and "isRecording (render time clientW clientH vol s) = isRecording s"
proof -
  obtain ip dp src dst where
    r: "render time clientW clientH vol s =
          serviceCapture (submitFrame
            (updateUniforms (fst (targetSize clientW clientH s)) (snd (targetSize clientW clientH s))
                    (fst (recordingTick ((time - startTime s) * (1 / 1000))
                            (ensureHistory (fst (targetSize clientW clientH s))
                               (snd (targetSize clientW clientH s)) s)))
                    vol
                    (snd (recordingTick ((time - startTime s) * (1 / 1000))
                            (ensureHistory (fst (targetSize clientW clientH s))
                               (snd (targetSize clientW clientH s)) s))))
             ip dp src dst
             (snd (recordingTick ((time - startTime s) * (1 / 1000))
                            (ensureHistory (fst (targetSize clientW clientH s))
                               (snd (targetSize clientW clientH s)) s))))"
    using render_ready_eq [OF assms, of time clientW clientH vol] by (elim exE conjE)
  show "renderReady (render time clientW clientH vol s)"
    using assms
    by (simp add: r renderReady_def serviceCapture_kept submitFrame_kept recordingTick_kept
          ensureHistory_kept)
  show "recordingConfig (render time clientW clientH vol s) = recordingConfig s"
    by (simp add: r serviceCapture_kept submitFrame_kept recordingTick_kept ensureHistory_kept)
  show "isRecording (render time clientW clientH vol s) = isRecording s"
    by (simp add: r serviceCapture_kept submitFrame_kept recordingTick_kept ensureHistory_kept)
qed

lemma render_tick_fields:
  assumes "renderReady s"
  shows "recorder (render time clientW clientH vol s)
           = recorder (snd (recordingTick ((time - startTime s) * (1 / 1000))
                (ensureHistory (fst (targetSize clientW clientH s))
                   (snd (targetSize clientW clientH s)) s)))"
    and "stopPending (render time clientW clientH vol s)
           = stopPending (snd (recordingTick ((time - startTime s) * (1 / 1000))
                (ensureHistory (fst (targetSize clientW clientH s))
                   (snd (targetSize clientW clientH s)) s)))"
    and "recordedFrames (render time clientW clientH vol s)
           = recordedFrames (snd (recordingTick ((time - startTime s) * (1 / 1000))
                (ensureHistory (fst (targetSize clientW clientH s))
                   (snd (targetSize clientW clientH s)) s)))"
    and "progress (render time clientW clientH vol s)
           = progress (snd (recordingTick ((time - startTime s) * (1 / 1000))
                (ensureHistory (fst (targetSize clientW clientH s))
                   (snd (targetSize clientW clientH s)) s)))"
proof -
  obtain ip dp src dst where
    r: "render time clientW clientH vol s =
          serviceCapture (submitFrame
            (updateUniforms (fst (targetSize clientW clientH s)) (snd (targetSize clientW clientH s))
                    (fst (recordingTick ((time - startTime s) * (1 / 1000))
                            (ensureHistory (fst (targetSize clientW clientH s))
                               (snd (targetSize clientW clientH s)) s)))
                    vol
                    (snd (recordingTick ((time - startTime s) * (1 / 1000))
                            (ensureHistory (fst (targetSize clientW clientH s))
                               (snd (targetSize clientW clientH s)) s))))
             ip dp src dst
             (snd (recordingTick ((time - startTime s) * (1 / 1000))
                            (ensureHistory (fst (targetSize clientW clientH s))
                               (snd (targetSize clientW clientH s)) s))))"
    using render_ready_eq [OF assms, of time clientW clientH vol] by (elim exE conjE)
  show "recorder (render time clientW clientH vol s)
           = recorder (snd (recordingTick ((time - startTime s) * (1 / 1000))
                (ensureHistory (fst (targetSize clientW clientH s))
                   (snd (targetSize clientW clientH s)) s)))"
    by (simp add: r serviceCapture_kept submitFrame_kept)
  show "stopPending (render time clientW clientH vol s)
           = stopPending (snd (recordingTick ((time - startTime s) * (1 / 1000))
                (ensureHistory (fst (targetSize clientW clientH s))
                   (snd (targetSize clientW clientH s)) s)))"
    by (simp add: r serviceCapture_kept submitFrame_kept)
  show "recordedFrames (render time clientW clientH vol s)
           = recordedFrames (snd (recordingTick ((time - startTime s) * (1 / 1000))
                (ensureHistory (fst (targetSize clientW clientH s))
                   (snd (targetSize clientW clientH s)) s)))"
    by (simp add: r serviceCapture_kept submitFrame_kept)
  show "progress (render time clientW clientH vol s)
           = progress (snd (recordingTick ((time - startTime s) * (1 / 1000))
                (ensureHistory (fst (targetSize clientW clientH s))
                   (snd (targetSize clientW clientH s)) s)))"
    by (simp add: r serviceCapture_kept submitFrame_kept)
qed

text \<open>One render callback while recording.\<close>

lemma render_recording:
  assumes "renderReady s" and "recordingConfig s = Some config" and "isRecording s"
  shows "\<exists>f. frames (render time clientW clientH vol s) = frames s @ [f]
           \<and> uniformData f ! 2 = real (recordedFrames s) / fps config
           \<and> recorderAtSubmit f = recorder (render time clientW clientH vol s)"
    and "recordedFrames (render time clientW clientH vol s) = recordedFrames s + 1"
    and "progress (render time clientW clientH vol s)
           = progress s @ [(True, max 0 (duration config - real (recordedFrames s) / fps config))]"
    and "recorder (render time clientW clientH vol s)
           = (if duration config \<le> real (recordedFrames s) / fps config \<and> recorder s = Some recording
              then Some inactive else recorder s)"
    and "stopPending (render time clientW clientH vol s)
           = (if duration config \<le> real (recordedFrames s) / fps config \<and> recorder s = Some recording
              then True else stopPending s)"
proof -
  let ?s1 = "ensureHistory (fst (targetSize clientW clientH s)) (snd (targetSize clientW clientH s)) s"
  have c1: "recordingConfig ?s1 = Some config" and i1: "isRecording ?s1"
    using assms(2,3) by (simp_all add: ensureHistory_kept)
  note tick = recordingTick_recording [OF c1 i1]
  note fields = render_tick_fields [OF assms(1), of time clientW clientH vol]
  obtain f where f: "frames (render time clientW clientH vol s) = frames s @ [f]"
      "uniformData f ! 2 = fst (recordingTick ((time - startTime s) * (1 / 1000)) ?s1)"
      "recorderAtSubmit f = recorder (snd (recordingTick ((time - startTime s) * (1 / 1000)) ?s1))"
    using render_frame [OF assms(1), of time clientW clientH vol] by (elim exE conjE)
  show "\<exists>f. frames (render time clientW clientH vol s) = frames s @ [f]
           \<and> uniformData f ! 2 = real (recordedFrames s) / fps config
           \<and> recorderAtSubmit f = recorder (render time clientW clientH vol s)"
    using f by (simp add: tick(1) fields(1) ensureHistory_kept)
  show "recordedFrames (render time clientW clientH vol s) = recordedFrames s + 1"
    by (simp add: fields(3) tick(2) ensureHistory_kept)
  show "progress (render time clientW clientH vol s)
           = progress s @ [(True, max 0 (duration config - real (recordedFrames s) / fps config))]"
    by (simp add: fields(4) tick(3) ensureHistory_kept)
  show "recorder (render time clientW clientH vol s)
           = (if duration config \<le> real (recordedFrames s) / fps config \<and> recorder s = Some recording
              then Some inactive else recorder s)"
    by (simp add: fields(1) tick(4) ensureHistory_kept)
  show "stopPending (render time clientW clientH vol s)
           = (if duration config \<le> real (recordedFrames s) / fps config \<and> recorder s = Some recording
              then True else stopPending s)"
    by (simp add: fields(2) tick(5) ensureHistory_kept)
qed

lemma renders_before_stop:
  assumes "renderReady s" and "recordingConfig s = Some config" and "isRecording s"
    and "recorder s = Some recording" and "0 < fps config"
    and "real (recordedFrames s + length ins) \<le> duration config * fps config"
  shows "(\<exists>fs. frames (renders ins s) = frames s @ fs
            \<and> timeline fs = map (\<lambda>k. real k / fps config)
                               [recordedFrames s ..< recordedFrames s + length ins]
            \<and> map recorderAtSubmit fs = replicate (length ins) (Some recording))
       \<and> progress (renders ins s)
           = progress s @ map (\<lambda>k. (True, duration config - real k / fps config))
                            [recordedFrames s ..< recordedFrames s + length ins]
       \<and> renderReady (renders ins s) \<and> recordingConfig (renders ins s) = Some config
       \<and> isRecording (renders ins s) \<and> recorder (renders ins s) = Some recording
       \<and> recordedFrames (renders ins s) = recordedFrames s + length ins
       \<and> stopPending (renders ins s) = stopPending s"
  using assms
proof (induction ins arbitrary: s)
  case Nil
  then show ?case by (simp add: timeline_def)
next
  case (Cons x xs)
  obtain time clientW clientH vol where x: "x = (time, clientW, clientH, vol)"
    by (cases x) auto
  let ?s' = "render time clientW clientH vol s"
  let ?k = "recordedFrames s"
  have lt: "real ?k < duration config * fps config"
    using Cons.prems(6) by simp
  then have early: "real ?k / fps config < duration config"
    using Cons.prems(5) by (simp add: pos_divide_less_eq)
  note step = render_recording [OF Cons.prems(1,2,3), of time clientW clientH vol]
  note keep = render_keeps_ready [OF Cons.prems(1), of time clientW clientH vol]
  obtain f where f: "frames ?s' = frames s @ [f]" "uniformData f ! 2 = real ?k / fps config"
      "recorderAtSubmit f = recorder ?s'"
    using step(1) by (elim exE conjE)
  have rec': "recorder ?s' = Some recording"
    using step(4) early Cons.prems(4) by simp
  have sp': "stopPending ?s' = stopPending s"
    using step(5) early by simp
  have k': "recordedFrames ?s' = ?k + 1" by (rule step(2))
  have pr': "progress ?s' = progress s @ [(True, duration config - real ?k / fps config)]"
    using step(3) early by simp
  have bound': "real (recordedFrames ?s' + length xs) \<le> duration config * fps config"
    using Cons.prems(6) k' by simp
  have c': "recordingConfig ?s' = Some config" using keep(2) Cons.prems(2) by simp
  have i': "isRecording ?s'" using keep(3) Cons.prems(3) by simp
  note IH = Cons.IH [OF keep(1) c' i' rec' Cons.prems(5) bound']
  obtain fs where fs: "frames (renders xs ?s') = frames ?s' @ fs"
      "timeline fs = map (\<lambda>k. real k / fps config) [recordedFrames ?s' ..< recordedFrames ?s' + length xs]"
      "map recorderAtSubmit fs = replicate (length xs) (Some recording)"
    using IH by (elim exE conjE)
  have upt: "[?k ..< ?k + length (x # xs)] = ?k # [?k + 1 ..< ?k + 1 + length xs]"
    by (simp del: upt_Suc add: upt_conv_Cons)
  have "frames (renders (x # xs) s) = frames s @ (f # fs)"
    using fs(1) f(1) by (simp add: x)
  moreover have "timeline (f # fs) = map (\<lambda>k. real k / fps config) [?k ..< ?k + length (x # xs)]"
    using fs(2) f(2) k' unfolding upt by (simp add: timeline_def)
  moreover have "map recorderAtSubmit (f # fs) = replicate (length (x # xs)) (Some recording)"
    using fs(3) f(3) rec' by simp
  moreover have "progress (renders (x # xs) s)
           = progress s @ map (\<lambda>k. (True, duration config - real k / fps config))
                            [?k ..< ?k + length (x # xs)]"
    using IH pr' k' unfolding upt by (simp add: x)
  moreover have "renderReady (renders (x # xs) s)" "recordingConfig (renders (x # xs) s) = Some config"
    "isRecording (renders (x # xs) s)" "recorder (renders (x # xs) s) = Some recording"
    using IH by (simp_all add: x)
  moreover have "recordedFrames (renders (x # xs) s) = ?k + length (x # xs)"
    using IH k' by (simp add: x)
  moreover have "stopPending (renders (x # xs) s) = stopPending s"
    using IH sp' by (simp add: x)
  ultimately show ?case by blast
qed

lemma render_after_stop:
  assumes "renderReady s" and "recorder s = Some inactive"
  shows "\<exists>f. frames (render time clientW clientH vol s) = frames s @ [f]
           \<and> recorderAtSubmit f = Some inactive"
    and "recorder (render time clientW clientH vol s) = Some inactive"
    and "stopPending (render time clientW clientH vol s) = stopPending s"
proof -
  let ?s1 = "ensureHistory (fst (targetSize clientW clientH s)) (snd (targetSize clientW clientH s)) s"
  have r1: "recorder ?s1 = Some inactive" using assms(2) by (simp add: ensureHistory_kept)
  note tick = recordingTick_inactive [OF r1]
  note fields = render_tick_fields [OF assms(1), of time clientW clientH vol]
  obtain f where f: "frames (render time clientW clientH vol s) = frames s @ [f]"
      "recorderAtSubmit f = recorder (snd (recordingTick ((time - startTime s) * (1 / 1000)) ?s1))"
    using render_frame [OF assms(1), of time clientW clientH vol] by (elim exE conjE)
  show "\<exists>f. frames (render time clientW clientH vol s) = frames s @ [f]
           \<and> recorderAtSubmit f = Some inactive"
    using f by (simp add: tick(1))
  show "recorder (render time clientW clientH vol s) = Some inactive"
    by (simp add: fields(1) tick(1))
  show "stopPending (render time clientW clientH vol s) = stopPending s"
    by (simp add: fields(2) tick(2) ensureHistory_kept)
qed

lemma renders_after_stop:
  assumes "renderReady s" and "recorder s = Some inactive"
  shows "(\<exists>fs. frames (renders ins s) = frames s @ fs
            \<and> map recorderAtSubmit fs = replicate (length ins) (Some inactive))
       \<and> recorder (renders ins s) = Some inactive
       \<and> stopPending (renders ins s) = stopPending s"
  using assms
proof (induction ins arbitrary: s)
  case Nil
  then show ?case by simp
next
  case (Cons x xs)
  obtain time clientW clientH vol where x: "x = (time, clientW, clientH, vol)"
    by (cases x) auto
  let ?s' = "render time clientW clientH vol s"
  note step = render_after_stop [OF Cons.prems, of time clientW clientH vol]
  have ready': "renderReady ?s'" by (rule render_keeps_ready(1) [OF Cons.prems(1)])
  note IH = Cons.IH [OF ready' step(2)]
  obtain f where f: "frames ?s' = frames s @ [f]" "recorderAtSubmit f = Some inactive"
    using step(1) by (elim exE conjE)
  obtain fs where fs: "frames (renders xs ?s') = frames ?s' @ fs"
      "map recorderAtSubmit fs = replicate (length xs) (Some inactive)"
    using IH by (elim exE conjE)
  have "frames (renders (x # xs) s) = frames s @ (f # fs)"
    using f(1) fs(1) by (simp add: x)
  moreover have "map recorderAtSubmit (f # fs) = replicate (length (x # xs)) (Some inactive)"
    using f(2) fs(2) by simp
  moreover have "recorder (renders (x # xs) s) = Some inactive"
    using IH by (simp add: x)
  moreover have "stopPending (renders (x # xs) s) = stopPending s"
    using IH step(3) by (simp add: x)
  ultimately show ?case by blast
qed

lemma encoded_all:
  "map recorderAtSubmit fs = replicate n (Some recording) \<Longrightarrow> encoded fs = fs"
proof -
  assume a: "map recorderAtSubmit fs = replicate n (Some recording)"
  have "\<forall>f \<in> set fs. recorderAtSubmit f = Some recording"
  proof
    fix f assume "f \<in> set fs"
    then have "recorderAtSubmit f \<in> set (map recorderAtSubmit fs)" by simp
    then show "recorderAtSubmit f = Some recording" unfolding a by simp
  qed
  then show ?thesis by (simp add: encoded_def)
qed

lemma encoded_none:
  "map recorderAtSubmit fs = replicate n (Some inactive) \<Longrightarrow> encoded fs = []"
proof -
  assume a: "map recorderAtSubmit fs = replicate n (Some inactive)"
  have "\<forall>f \<in> set fs. recorderAtSubmit f \<noteq> Some recording"
  proof
    fix f assume "f \<in> set fs"
    then have "recorderAtSubmit f \<in> set (map recorderAtSubmit fs)" by simp
    then show "recorderAtSubmit f \<noteq> Some recording" unfolding a by auto
  qed
  then show ?thesis by (simp add: encoded_def filter_empty_conv)
qed

lemma encoded_append: "encoded (fs @ gs) = encoded fs @ encoded gs"
  by (simp add: encoded_def)

lemma recordingTick_progress:
  "\<exists>ps. progress (snd (recordingTick wallClock s)) = progress s @ ps"
  by (simp add: recordingTick_def recorder_stop_def Let_def split: option.splits)

lemma render_progress:
  "\<exists>ps. progress (render time clientW clientH vol s) = progress s @ ps"
proof (cases "renderReady s")
  case True
  obtain ps where "progress (snd (recordingTick ((time - startTime s) * (1 / 1000))
                (ensureHistory (fst (targetSize clientW clientH s))
                   (snd (targetSize clientW clientH s)) s)))
        = progress (ensureHistory (fst (targetSize clientW clientH s))
                   (snd (targetSize clientW clientH s)) s) @ ps"
    using recordingTick_progress by blast
  then show ?thesis
    using render_tick_fields(4) [OF True, of time clientW clientH vol]
    by (simp add: ensureHistory_kept)
next
  case False
  then show ?thesis by (simp add: render_not_ready)
qed

lemma renders_progress:
  "\<exists>ps. progress (renders ins s) = progress s @ ps"
proof (induction ins arbitrary: s)
  case Nil
  show ?case by simp
next
  case (Cons x xs)
  obtain time clientW clientH vol where x: "x = (time, clientW, clientH, vol)"
    by (cases x) auto
  obtain ps where ps: "progress (render time clientW clientH vol s) = progress s @ ps"
    using render_progress by blast
  obtain qs where "progress (renders xs (render time clientW clientH vol s))
      = progress (render time clientW clientH vol s) @ qs"
    using Cons.IH by blast
  then show ?case using ps by (simp add: x)
qed

text \<open>
  C8. Recording at 30 frames per second for 5 seconds, over any run of at least 151 render
  callbacks of a renderer that is ready: exactly 150 frames reach the encoder, the first 150
  of the run, with elapsed times \<open>k / 30\<close> for \<open>k = 0, \<dots>, 149\<close>, the last being
  \<open>149 / 30\<close>, about 4.967; the reports of the first 150 callbacks are \<open>5 - k / 30\<close>, the
  one of callback 150 is 0; the recorder is still recording after 150 callbacks and
  inactive after 151; when its stop event fires the component reports that recording has
  ended with 0 seconds left.
\<close>

theorem recording_30fps_5s:
  assumes "renderReady s" and "151 \<le> length ins"
  shows "\<exists>fs. frames (renders ins (startVideo \<lparr>duration = 5, fps = 30, bitrate = b\<rparr> s)) = frames s @ fs
      \<and> length fs = length ins
      \<and> encoded fs = take 150 fs
      \<and> length (encoded fs) = 150
      \<and> timeline (encoded fs) = map (\<lambda>k. real k / 30) [0..<150]
      \<and> last (timeline (encoded fs)) = 149 / 30
      \<and> \<bar>149 / 30 - 4967 / 1000\<bar> < (1 / 1000 :: real)
      \<and> take 151 (drop (length (progress s))
            (progress (renders ins (startVideo \<lparr>duration = 5, fps = 30, bitrate = b\<rparr> s))))
          = map (\<lambda>k. (True, 5 - real k / 30)) [0..<150] @ [(True, 0)]
      \<and> recorder (renders (take 150 ins) (startVideo \<lparr>duration = 5, fps = 30, bitrate = b\<rparr> s))
          = Some recording
      \<and> recorder (renders (take 151 ins) (startVideo \<lparr>duration = 5, fps = 30, bitrate = b\<rparr> s))
          = Some inactive
      \<and> recorder (renders ins (startVideo \<lparr>duration = 5, fps = 30, bitrate = b\<rparr> s)) = Some inactive
      \<and> \<not> isRecording (recorder_onstop
            (renders ins (startVideo \<lparr>duration = 5, fps = 30, bitrate = b\<rparr> s)))
      \<and> last (progress (recorder_onstop
            (renders ins (startVideo \<lparr>duration = 5, fps = 30, bitrate = b\<rparr> s)))) = (False, 0)"
proof -
  let ?config = "\<lparr>duration = 5, fps = 30, bitrate = b\<rparr>"
  let ?s0 = "startVideo ?config s"
  let ?a = "take 150 ins"
  let ?c = "drop 151 ins"
  obtain time clientW clientH vol where x: "ins ! 150 = (time, clientW, clientH, vol)"
    by (cases "ins ! 150") auto
  have la: "length ?a = 150" using assms(2) by simp
  have t151: "take 151 ins = ?a @ [ins ! 150]"
    using assms(2) take_Suc_conv_app_nth [of 150 ins] by simp
  have split: "ins = ?a @ [ins ! 150] @ ?c"
    using t151 append_take_drop_id [of 151 ins] by simp
  have ready0: "renderReady ?s0" using assms(1) by (simp add: renderReady_def startVideo_def)
  have s0: "recordingConfig ?s0 = Some ?config" "isRecording ?s0" "recorder ?s0 = Some recording"
    "recordedFrames ?s0 = 0" "frames ?s0 = frames s" "progress ?s0 = progress s"
    by (simp_all add: startVideo_def)
  let ?s1 = "renders ?a ?s0"
  have bound: "real (recordedFrames ?s0 + length ?a) \<le> duration ?config * fps ?config"
    using la s0(4) by simp
  have fpos: "0 < fps ?config" by simp
  note P1 = renders_before_stop [OF ready0 s0(1,2,3) fpos bound]
  obtain fs1 where fs1: "frames ?s1 = frames ?s0 @ fs1"
      "timeline fs1 = map (\<lambda>k. real k / fps ?config) [recordedFrames ?s0 ..< recordedFrames ?s0 + length ?a]"
      "map recorderAtSubmit fs1 = replicate (length ?a) (Some recording)"
    using P1 by (elim exE conjE)
  have s1: "renderReady ?s1" "recordingConfig ?s1 = Some ?config" "isRecording ?s1"
      "recorder ?s1 = Some recording" "recordedFrames ?s1 = 150"
      "progress ?s1 = progress s @ map (\<lambda>k. (True, 5 - real k / 30)) [0..<150]"
    using P1 la s0(4,6) by simp_all
  have lfs1: "length fs1 = 150"
    using arg_cong [OF fs1(3), of length] la by simp
  have tl1: "timeline fs1 = map (\<lambda>k. real k / 30) [0..<150]"
    using fs1(2) la s0(4) by simp
  let ?s2 = "render time clientW clientH vol ?s1"
  note P2 = render_recording [OF s1(1,2,3), of time clientW clientH vol]
  obtain f where f: "frames ?s2 = frames ?s1 @ [f]" "recorderAtSubmit f = recorder ?s2"
    using P2(1) by (elim exE conjE)
  have rec2: "recorder ?s2 = Some inactive" using P2(4) s1(4,5) by simp
  have sp2: "stopPending ?s2" using P2(5) s1(4,5) by simp
  have pr2: "progress ?s2 = progress s @ map (\<lambda>k. (True, 5 - real k / 30)) [0..<150] @ [(True, 0)]"
    using P2(3) s1(5,6) by simp
  have ready2: "renderReady ?s2" by (rule render_keeps_ready(1) [OF s1(1)])
  have isrec2: "isRecording ?s2" using render_keeps_ready(3) [OF s1(1)] s1(3) by simp
  let ?s3 = "renders ?c ?s2"
  note P3 = renders_after_stop [OF ready2 rec2, of ?c]
  obtain fs3 where fs3: "frames ?s3 = frames ?s2 @ fs3"
      "map recorderAtSubmit fs3 = replicate (length ?c) (Some inactive)"
    using P3 by (elim exE conjE)
  have rec3: "recorder ?s3 = Some inactive" and sp3: "stopPending ?s3"
    using P3 sp2 by simp_all
  have r151: "renders (take 151 ins) ?s0 = ?s2"
    by (simp add: t151 renders_append x)
  have rall: "renders ins ?s0 = ?s3"
  proof -
    have "renders ins ?s0 = renders (?a @ [ins ! 150] @ ?c) ?s0" using split by simp
    also have "\<dots> = ?s3" by (simp only: renders_append) (simp add: x)
    finally show ?thesis .
  qed
  let ?fs = "fs1 @ [f] @ fs3"
  have lfs3: "length fs3 = length ?c"
    using arg_cong [OF fs3(2), of length] by simp
  have fr: "frames (renders ins ?s0) = frames s @ ?fs"
    using fs1(1) f(1) fs3(1) s0(5) by (simp add: rall)
  have len: "length ?fs = length ins"
    using lfs1 lfs3 assms(2) by simp
  have enc: "encoded ?fs = fs1"
    using encoded_all [OF fs1(3)] encoded_none [OF fs3(2)] f(2) rec2
    by (simp add: encoded_append) (simp add: encoded_def)
  have tk: "take 150 ?fs = fs1" using lfs1 by simp
  obtain ps where ps: "progress ?s3 = progress ?s2 @ ps"
    using renders_progress by blast
  have pr: "take 151 (drop (length (progress s)) (progress (renders ins ?s0)))
          = map (\<lambda>k. (True, 5 - real k / 30)) [0..<150] @ [(True, 0)]"
    by (simp add: rall ps pr2)
  have last_t: "last (timeline fs1) = 149 / 30"
    unfolding tl1 by (simp add: last_map)
  have stop: "\<not> isRecording (recorder_onstop ?s3)" "last (progress (recorder_onstop ?s3)) = (False, 0)"
    using sp3 by (simp_all add: recorder_onstop_def)
  have num: "\<bar>149 / 30 - 4967 / 1000\<bar> < (1 / 1000 :: real)" by simp
  show ?thesis
    apply (rule exI [of _ ?fs])
    using fr len enc tk lfs1 tl1 last_t num pr s1(4) rec2 rec3 stop
    by (simp only: rall r151) simp
qed

text \<open>C8, on a run of 151 render callbacks of the initialised renderer.\<close>

theorem recording_30fps_5s_witness:
  "renderReady initialised
   \<and> 151 \<le> length (replicate 151 (0 :: real, 800 :: nat, 600 :: nat, 0 :: real))
   \<and> (\<exists>fs. frames (renders (replicate 151 (0, 800, 600, 0))
                  (startVideo \<lparr>duration = 5, fps = 30, bitrate = 25\<rparr> initialised))
             = frames initialised @ fs
           \<and> length (encoded fs) = 150
           \<and> timeline (encoded fs) = map (\<lambda>k. real k / 30) [0..<150])"
proof -
  have n: "151 \<le> length (replicate 151 (0 :: real, 800 :: nat, 600 :: nat, 0 :: real))"
    by simp
  obtain fs where "frames (renders (replicate 151 (0, 800, 600, 0))
                  (startVideo \<lparr>duration = 5, fps = 30, bitrate = 25\<rparr> initialised))
             = frames initialised @ fs"
      "length (encoded fs) = 150"
      "timeline (encoded fs) = map (\<lambda>k. real k / 30) [0..<150]"
    using recording_30fps_5s [OF renderReady_initialised n, of 25] by (elim exE conjE)
  then show ?thesis using renderReady_initialised n by blast
qed

subsection \<open>The accumulation counter across an output-size change\<close>

lemma ensureHistory_cases:
  "ensureHistory width height s
     = (if needsHistory width height s then recreateHistory width height s else s)"
  by (simp add: ensureHistory_def)

lemma ensureHistory_canvas:
  "canvasWidth (ensureHistory width height s) = width"
  "canvasHeight (ensureHistory width height s) = height"
  by (auto simp: ensureHistory_def needsHistory_def recreateHistory_def)

lemma recordingTick_canvas:
  "canvasWidth (snd (recordingTick wallClock s)) = canvasWidth s"
  "canvasHeight (snd (recordingTick wallClock s)) = canvasHeight s"
  "capturePending (snd (recordingTick wallClock s)) = capturePending s"
  by (simp_all add: recordingTick_def recorder_stop_def Let_def split: option.splits)

lemma submitFrame_state:
  "canvasWidth (submitFrame data ip dp src dst s) = canvasWidth s"
  "canvasHeight (submitFrame data ip dp src dst s) = canvasHeight s"
  "capturePending (submitFrame data ip dp src dst s) = capturePending s"
  "historyTextureA (submitFrame data ip dp src dst s) = Some dst"
  "historyTextureB (submitFrame data ip dp src dst s) = Some src"
  by (simp_all add: submitFrame_def Let_def)

lemma submitFrame_textures:
  "\<exists>f. frames (submitFrame data ip dp src dst s) = frames s @ [f]
       \<and> uniformData f = data \<and> inputIsNoise f = (frameIndex s = 0)
       \<and> sourceTexture f = src \<and> destTexture f = dst"
  by (simp add: submitFrame_def Let_def)

lemma serviceCapture_state:
  "canvasWidth (serviceCapture s) = canvasWidth s"
  "canvasHeight (serviceCapture s) = canvasHeight s"
  "historyTextureA (serviceCapture s) = historyTextureA s"
  "historyTextureB (serviceCapture s) = historyTextureB s"
  "capturePending (serviceCapture s) = (if 0 < capturePending s then 0 else capturePending s)"
  by (simp_all add: serviceCapture_def)

text \<open>One render callback of a ready renderer: its frame and the state it leaves.\<close>

lemma render_frame_textures:
  assumes "renderReady s"
  shows "\<exists>f src dst.
           frames (render time clientW clientH vol s) = frames s @ [f]
         \<and> historyTextureA (ensureHistory (fst (targetSize clientW clientH s))
               (snd (targetSize clientW clientH s)) s) = Some src
         \<and> historyTextureB (ensureHistory (fst (targetSize clientW clientH s))
               (snd (targetSize clientW clientH s)) s) = Some dst
         \<and> sourceTexture f = src \<and> destTexture f = dst
         \<and> uniformData f ! 0 = real (fst (targetSize clientW clientH s))
         \<and> uniformData f ! 1 = real (snd (targetSize clientW clientH s))
         \<and> uniformData f ! 3 = real (frameIndex (ensureHistory (fst (targetSize clientW clientH s))
               (snd (targetSize clientW clientH s)) s))
         \<and> inputIsNoise f = (frameIndex (ensureHistory (fst (targetSize clientW clientH s))
               (snd (targetSize clientW clientH s)) s) = 0)
         \<and> historyTextureA (render time clientW clientH vol s) = Some dst
         \<and> historyTextureB (render time clientW clientH vol s) = Some src
         \<and> canvasWidth (render time clientW clientH vol s) = fst (targetSize clientW clientH s)
         \<and> canvasHeight (render time clientW clientH vol s) = snd (targetSize clientW clientH s)
         \<and> capturePending (render time clientW clientH vol s)
             = (if 0 < capturePending s then 0 else capturePending s)"
proof -
  let ?w = "fst (targetSize clientW clientH s)" and ?h = "snd (targetSize clientW clientH s)"
  let ?s1 = "ensureHistory ?w ?h s"
  let ?tick = "recordingTick ((time - startTime s) * (1 / 1000)) ?s1"
  let ?s2 = "snd ?tick"
  let ?data = "updateUniforms ?w ?h (fst ?tick) vol ?s2"
  have st: "startTime ?s1 = startTime s"
    by (simp add: ensureHistory_def recreateHistory_def)
  have cp: "capturePending ?s1 = capturePending s"
    by (simp add: ensureHistory_def recreateHistory_def)
  obtain ip dp where p: "integratorPipeline s = Some ip" "displayPipeline s = Some dp"
    using assms by (auto simp: renderReady_def)
  obtain a b where t: "historyTextureA ?s1 = Some a" "historyTextureB ?s1 = Some b"
    using ensureHistory_textures [of ?w ?h s] by auto
  have t2: "historyTextureA ?s2 = Some a" "historyTextureB ?s2 = Some b"
    using t by (simp_all add: recordingTick_kept)
  have refs: "deviceRef s" "contextRef s" "uniformBufferRef s"
    using assms by (simp_all add: renderReady_def)
  have r: "render time clientW clientH vol s = serviceCapture (submitFrame ?data ip dp a b ?s2)"
    using p t2 refs st by (simp add: render_def Let_def)
  obtain f where f: "frames (submitFrame ?data ip dp a b ?s2) = frames ?s2 @ [f]"
      "uniformData f = ?data" "inputIsNoise f = (frameIndex ?s2 = 0)"
      "sourceTexture f = a" "destTexture f = b"
    using submitFrame_textures [of ?data ip dp a b ?s2] by (elim exE conjE)
  have F1: "frames (render time clientW clientH vol s) = frames s @ [f]"
    using f(1) by (simp add: r serviceCapture_kept recordingTick_kept ensureHistory_kept)
  have F2: "uniformData f ! 0 = real ?w"
    unfolding f(2) by (rule updateUniforms_header(1))
  have F3: "uniformData f ! 1 = real ?h"
    unfolding f(2) by (rule updateUniforms_header(2))
  have F4: "uniformData f ! 3 = real (frameIndex ?s1)"
    by (simp add: f(2) updateUniforms_header recordingTick_kept)
  have F5: "inputIsNoise f = (frameIndex ?s1 = 0)"
    by (simp add: f(3) recordingTick_kept)
  have F6: "historyTextureA (render time clientW clientH vol s) = Some b"
    "historyTextureB (render time clientW clientH vol s) = Some a"
    by (simp_all add: r serviceCapture_state submitFrame_state)
  have F7: "canvasWidth (render time clientW clientH vol s) = ?w"
    "canvasHeight (render time clientW clientH vol s) = ?h"
    by (simp_all add: r serviceCapture_state submitFrame_state recordingTick_canvas ensureHistory_canvas)
  have F8: "capturePending (render time clientW clientH vol s)
             = (if 0 < capturePending s then 0 else capturePending s)"
    by (simp add: r serviceCapture_state submitFrame_state recordingTick_canvas cp)
  show ?thesis
    apply (rule exI [of _ f])
    apply (rule exI [of _ a])
    apply (rule exI [of _ b])
    using F1 F2 F3 F4 F5 F6 F7 F8 t f(4,5) by simp
qed

lemma settled_textures:
  assumes "settled width height s"
  shows "\<exists>a b. historyTextureA s = Some a \<and> historyTextureB s = Some b
           \<and> tex_width a = width \<and> tex_height a = height
           \<and> tex_width b = width \<and> tex_height b = height"
  using assms by (auto simp: settled_def split: option.splits)

lemma settled_targetSize:
  assumes "settled width height s"
  shows "targetSize width height s = (width, height)"
    and "ensureHistory width height s = s"
  using assms
  by (auto simp: settled_def targetSize_def ensureHistory_def needsHistory_def split: option.splits)

lemma render_frameIndex:
  assumes "renderReady s"
  shows "frameIndex (render time clientW clientH vol s)
           = frameIndex (ensureHistory (fst (targetSize clientW clientH s))
                           (snd (targetSize clientW clientH s)) s) + 1"
  using render_frame [OF assms, of time clientW clientH vol] by (elim exE conjE)

lemma steady_render:
  assumes "settled width height s"
  shows "settled width height (render time width height vol s)"
    and "frameIndex (render time width height vol s) = frameIndex s + 1"
proof -
  have ready: "renderReady s" and cp: "capturePending s \<le> 0" and nr: "\<not> isRecording s"
    using assms by (simp_all add: settled_def)
  note ts = settled_targetSize [OF assms]
  obtain a b where ab: "historyTextureA s = Some a" "historyTextureB s = Some b"
      "tex_width a = width" "tex_height a = height" "tex_width b = width" "tex_height b = height"
    using settled_textures [OF assms] by (elim exE conjE)
  obtain f src dst where r: "historyTextureA (ensureHistory width height s) = Some src"
      "historyTextureB (ensureHistory width height s) = Some dst"
      "historyTextureA (render time width height vol s) = Some dst"
      "historyTextureB (render time width height vol s) = Some src"
      "canvasWidth (render time width height vol s) = width"
      "canvasHeight (render time width height vol s) = height"
      "capturePending (render time width height vol s)
             = (if 0 < capturePending s then 0 else capturePending s)"
    using render_frame_textures [OF ready, of time width height vol]
    by (simp only: ts fst_conv snd_conv) (elim exE conjE)
  have sd: "src = a" "dst = b" using r(1,2) ab(1,2) by (simp_all add: ts)
  have keep: "renderReady (render time width height vol s)"
    "isRecording (render time width height vol s) = isRecording s"
    using render_keeps_ready [OF ready, of time width height vol] by simp_all
  show "settled width height (render time width height vol s)"
    using keep nr cp r(3-7) sd ab(3-6) by (simp add: settled_def)
  show "frameIndex (render time width height vol s) = frameIndex s + 1"
    using render_frameIndex [OF ready, of time width height vol] by (simp add: ts)
qed

lemma steady_renders:
  assumes "settled width height s"
  shows "settled width height (renders (replicate n (time, width, height, vol)) s)
       \<and> frameIndex (renders (replicate n (time, width, height, vol)) s) = frameIndex s + n"
  using assms
proof (induction n arbitrary: s)
  case 0
  then show ?case by simp
next
  case (Suc n)
  note step = steady_render [OF Suc.prems, of time vol]
  show ?case
    using Suc.IH [OF step(1)] step(2) by simp
qed

lemma first_render:
  "settled width height (render time width height vol initialised)"
  "frameIndex (render time width height vol initialised) = 1"
proof -
  note ready = renderReady_initialised
  have ts: "targetSize width height initialised = (width, height)"
    by (simp add: targetSize_def pipelines_initialised)
  have eh: "ensureHistory width height initialised = recreateHistory width height initialised"
    by (simp add: ensureHistory_def needsHistory_def pipelines_initialised)
  obtain f src dst where r: "historyTextureA (ensureHistory width height initialised) = Some src"
      "historyTextureB (ensureHistory width height initialised) = Some dst"
      "historyTextureA (render time width height vol initialised) = Some dst"
      "historyTextureB (render time width height vol initialised) = Some src"
      "canvasWidth (render time width height vol initialised) = width"
      "canvasHeight (render time width height vol initialised) = height"
      "capturePending (render time width height vol initialised)
             = (if 0 < capturePending initialised then 0 else capturePending initialised)"
    using render_frame_textures [OF ready, of time width height vol]
    by (simp only: ts fst_conv snd_conv) (elim exE conjE)
  have sz: "tex_width src = width" "tex_height src = height"
      "tex_width dst = width" "tex_height dst = height"
    using r(1,2) by (auto simp: eh recreateHistory_def)
  have keep: "renderReady (render time width height vol initialised)"
    "isRecording (render time width height vol initialised) = isRecording initialised"
    using render_keeps_ready [OF ready, of time width height vol] by simp_all
  show "settled width height (render time width height vol initialised)"
    using keep r(3-7) sz by (simp add: settled_def pipelines_initialised)
  show "frameIndex (render time width height vol initialised) = 1"
    using render_frameIndex [OF ready, of time width height vol]
    by (simp add: ts eh recreateHistory_def)
qed

lemma accumulated_settled:
  "settled 800 600 accumulated" "frameIndex accumulated = 7"
proof -
  have "replicate 7 (16 :: real, 800 :: nat, 600 :: nat, 0 :: real)
          = (16, 800, 600, 0) # replicate 6 (16, 800, 600, 0)"
    by (simp add: numeral_eq_Suc)
  then have acc: "accumulated = renders (replicate 6 (16, 800, 600, 0)) (render 16 800 600 0 initialised)"
    by (simp add: accumulated_def)
  have fr: "settled 800 600 (render 16 800 600 0 initialised)" by (rule first_render(1))
  note rest = steady_renders [OF fr, where n = 6 and time = 16 and vol = 0]
  show "settled 800 600 accumulated" using rest by (simp add: acc)
  show "frameIndex accumulated = 7" using rest by (simp add: acc first_render(2))
qed

text \<open>What each event does to \<^verbatim>\<open>frameIndex\<close>.\<close>

lemma frameIndex_after_event:
  "frameIndex (handle e s) =
     (case e of
        Render time clientW clientH vol \<Rightarrow>
          if renderReady s
          then (if needsHistory (fst (targetSize clientW clientH s))
                     (snd (targetSize clientW clientH s)) s
                then 0 else frameIndex s) + 1
          else frameIndex s
      | ShaderCodeEffect code messages screenFormat \<Rightarrow>
          if deviceRef s \<and> contextRef s \<and> filter (\<lambda>m. msg_type m = error) messages = []
          then 0 else frameIndex s
      | InitWebGPU gpu code messages screenFormat \<Rightarrow>
          if gpu \<and> filter (\<lambda>m. msg_type m = error) messages = [] then 0 else frameIndex s
      | PointerMove clientX clientY rect \<Rightarrow> if isDragging s then 0 else frameIndex s
      | Wheel deltaY \<Rightarrow> 0
      | _ \<Rightarrow> frameIndex s)"
proof (cases e)
  case (Render time clientW clientH vol)
  show ?thesis
  proof (cases "renderReady s")
    case True
    show ?thesis
      using True render_frameIndex [OF True, of time clientW clientH vol]
      by (simp add: Render ensureHistory_frameIndex)
  next
    case False
    then show ?thesis by (simp add: Render render_not_ready)
  qed
next
  case (ShaderCodeEffect code messages screenFormat)
  show ?thesis
  proof (cases "\<exists>m \<in> set messages. msg_type m = error")
    case True
    then have "filter (\<lambda>m. msg_type m = error) messages \<noteq> []"
      by (simp add: filter_empty_conv)
    then show ?thesis
      using True by (simp add: ShaderCodeEffect shaderCodeEffect_def compilePipeline_failed)
  next
    case False
    then have "filter (\<lambda>m. msg_type m = error) messages = []"
      by (simp add: filter_empty_conv)
    then show ?thesis
      using False by (simp add: ShaderCodeEffect shaderCodeEffect_def compilePipeline_succeeded)
  qed
next
  case (InitWebGPU gpu code messages screenFormat)
  show ?thesis
  proof (cases "\<exists>m \<in> set messages. msg_type m = error")
    case True
    then have "filter (\<lambda>m. msg_type m = error) messages \<noteq> []"
      by (simp add: filter_empty_conv)
    then show ?thesis
      using True by (simp add: InitWebGPU initWebGPU_def compilePipeline_failed)
  next
    case False
    then have "filter (\<lambda>m. msg_type m = error) messages = []"
      by (simp add: filter_empty_conv)
    then show ?thesis
      using False by (simp add: InitWebGPU initWebGPU_def compilePipeline_succeeded)
  qed
next
  case (PointerDown clientX clientY)
  then show ?thesis by (simp add: handlePointerDown_def)
next
  case (PointerMove clientX clientY rect)
  then show ?thesis by (simp add: handlePointerMove_def Let_def split: option.splits prod.splits)
next
  case PointerUp
  then show ?thesis by (simp add: handlePointerUp_def)
next
  case (Wheel deltaY)
  then show ?thesis by (simp add: handleWheel_def)
next
  case (SetParams ps')
  then show ?thesis by (simp add: setParams_def)
next
  case (FloatChange k' v')
  then show ?thesis by (simp add: handleFloatChange_def setParams_def)
next
  case (ColorChange k' c')
  then show ?thesis by (simp add: handleColorChange_def setParams_def)
next
  case (SetDebugMode mode')
  then show ?thesis by (simp add: setDebugMode_def setParams_def)
next
  case (Capture quality)
  then show ?thesis by (simp add: capture_def)
next
  case (StartVideo config)
  then show ?thesis by (simp add: startVideo_def)
next
  case StopVideo
  then show ?thesis by (simp add: stopVideo_def recorder_stop_def)
next
  case RecorderStopped
  then show ?thesis by (simp add: recorder_onstop_def)
qed

text \<open>
  C4. The accumulation counter \<^verbatim>\<open>frameIndex\<close> is to be set to 0 on every output-size change.
  Entering record mode changes the output size without resetting it. After seven frames at
  800 x 600 the counter is 7. \<^verbatim>\<open>startVideo\<close> sets the canvas to 1920 x 1080 itself, so the
  next render callback finds the canvas already at its target size, recreates no history
  texture and resets nothing: the frame is drawn at 1920 x 1080 with \<^verbatim>\<open>frameIndex\<close> 7 in
  uniform slot 3, reading and writing the 800 x 600 history textures, and the counter goes
  on to 8. A capture request from the same state does reset: its frame is drawn at
  3840 x 2160 with \<^verbatim>\<open>frameIndex\<close> 0 on fresh history textures of that size.
\<close>

theorem startVideo_resize_keeps_frameIndex:
  "canvasWidth accumulated = 800 \<and> canvasHeight accumulated = 600 \<and> frameIndex accumulated = 7
   \<and> canvasWidth (startVideo \<lparr>duration = 5, fps = 30, bitrate = 25\<rparr> accumulated) = 1920
   \<and> canvasHeight (startVideo \<lparr>duration = 5, fps = 30, bitrate = 25\<rparr> accumulated) = 1080
   \<and> (\<exists>f. frames (render 16 800 600 0 (startVideo \<lparr>duration = 5, fps = 30, bitrate = 25\<rparr> accumulated))
              = frames accumulated @ [f]
          \<and> uniformData f ! 0 = 1920 \<and> uniformData f ! 1 = 1080
          \<and> uniformData f ! 3 = 7 \<and> \<not> inputIsNoise f
          \<and> tex_width (sourceTexture f) = 800 \<and> tex_height (sourceTexture f) = 600
          \<and> tex_width (destTexture f) = 800 \<and> tex_height (destTexture f) = 600)
   \<and> frameIndex (render 16 800 600 0 (startVideo \<lparr>duration = 5, fps = 30, bitrate = 25\<rparr> accumulated))
       = 8
   \<and> (\<exists>f. frames (render 16 800 600 0 (capture 1 accumulated)) = frames accumulated @ [f]
          \<and> uniformData f ! 0 = 3840 \<and> uniformData f ! 1 = 2160
          \<and> uniformData f ! 3 = 0 \<and> inputIsNoise f
          \<and> tex_width (destTexture f) = 3840 \<and> tex_height (destTexture f) = 2160)
   \<and> frameIndex (render 16 800 600 0 (capture 1 accumulated)) = 1"
proof -
  let ?config = "\<lparr>duration = 5, fps = 30, bitrate = 25\<rparr>"
  let ?v = "startVideo ?config accumulated"
  let ?c = "capture 1 accumulated"
  note st = accumulated_settled
  have ready: "renderReady accumulated" and cp: "capturePending accumulated \<le> 0"
    and cw: "canvasWidth accumulated = 800" and ch: "canvasHeight accumulated = 600"
    using st(1) by (simp_all add: settled_def)
  obtain a b where ab: "historyTextureA accumulated = Some a" "historyTextureB accumulated = Some b"
      "tex_width a = 800" "tex_height a = 600" "tex_width b = 800" "tex_height b = 600"
    using settled_textures [OF st(1)] by (elim exE conjE)
  \<comment> \<open>entering record mode\<close>
  have vready: "renderReady ?v" using ready by (simp add: renderReady_def startVideo_def)
  have vsize: "canvasWidth ?v = 1920" "canvasHeight ?v = 1080"
    by (simp_all add: startVideo_def)
  have vts: "targetSize 800 600 ?v = (1920, 1080)"
    using cp by (simp add: targetSize_def startVideo_def)
  have veh: "ensureHistory 1920 1080 ?v = ?v"
    using ab(1,2) by (simp add: ensureHistory_def needsHistory_def startVideo_def)
  have vfi: "frameIndex ?v = 7" "frames ?v = frames accumulated"
    "historyTextureA ?v = Some a" "historyTextureB ?v = Some b"
    using st(2) ab(1,2) by (simp_all add: startVideo_def)
  obtain f src dst where f: "frames (render 16 800 600 0 ?v) = frames ?v @ [f]"
      "historyTextureA (ensureHistory 1920 1080 ?v) = Some src"
      "historyTextureB (ensureHistory 1920 1080 ?v) = Some dst"
      "sourceTexture f = src" "destTexture f = dst"
      "uniformData f ! 0 = real (1920 :: nat)" "uniformData f ! 1 = real (1080 :: nat)"
      "uniformData f ! 3 = real (frameIndex (ensureHistory 1920 1080 ?v))"
      "inputIsNoise f = (frameIndex (ensureHistory 1920 1080 ?v) = 0)"
    using render_frame_textures [OF vready, of 16 800 600 0]
    by (simp only: vts fst_conv snd_conv) (elim exE conjE)
  have fsd: "src = a" "dst = b" using f(2,3) vfi(3,4) by (simp_all add: veh)
  have V: "\<exists>f. frames (render 16 800 600 0 ?v) = frames accumulated @ [f]
          \<and> uniformData f ! 0 = 1920 \<and> uniformData f ! 1 = 1080
          \<and> uniformData f ! 3 = 7 \<and> \<not> inputIsNoise f
          \<and> tex_width (sourceTexture f) = 800 \<and> tex_height (sourceTexture f) = 600
          \<and> tex_width (destTexture f) = 800 \<and> tex_height (destTexture f) = 600"
    apply (rule exI [of _ f])
    using f(1,4-9) fsd ab(3-6) vfi(1,2) by (simp add: veh)
  have Vn: "frameIndex (render 16 800 600 0 ?v) = 8"
    using render_frameIndex [OF vready, of 16 800 600 0] vfi(1) by (simp add: vts veh)
  \<comment> \<open>a capture request\<close>
  have cready: "renderReady ?c" using ready by (simp add: renderReady_def capture_def)
  have cts: "targetSize 800 600 ?c = (3840, 2160)"
    by (simp add: targetSize_def capture_def)
  have ceh: "ensureHistory 3840 2160 ?c = recreateHistory 3840 2160 ?c"
    using cw by (simp add: ensureHistory_def needsHistory_def capture_def)
  obtain g gsrc gdst where g: "frames (render 16 800 600 0 ?c) = frames ?c @ [g]"
      "historyTextureB (ensureHistory 3840 2160 ?c) = Some gdst"
      "destTexture g = gdst"
      "uniformData g ! 0 = real (3840 :: nat)" "uniformData g ! 1 = real (2160 :: nat)"
      "uniformData g ! 3 = real (frameIndex (ensureHistory 3840 2160 ?c))"
      "inputIsNoise g = (frameIndex (ensureHistory 3840 2160 ?c) = 0)"
    using render_frame_textures [OF cready, of 16 800 600 0]
    by (simp only: cts fst_conv snd_conv) (elim exE conjE)
  have gd: "tex_width gdst = 3840" "tex_height gdst = 2160"
    using g(2) unfolding ceh by (auto simp: recreateHistory_def)
  have cfi: "frameIndex (ensureHistory 3840 2160 ?c) = 0"
    unfolding ceh by (simp add: recreateHistory_def)
  have cfr: "frames ?c = frames accumulated"
    by (simp add: capture_def)
  have C: "\<exists>f. frames (render 16 800 600 0 ?c) = frames accumulated @ [f]
          \<and> uniformData f ! 0 = 3840 \<and> uniformData f ! 1 = 2160
          \<and> uniformData f ! 3 = 0 \<and> inputIsNoise f
          \<and> tex_width (destTexture f) = 3840 \<and> tex_height (destTexture f) = 2160"
    apply (rule exI [of _ g])
    using g(1,3-7) gd cfi cfr by simp
  have Cn: "frameIndex (render 16 800 600 0 ?c) = 1"
    using render_frameIndex [OF cready, of 16 800 600 0] cfi by (simp only: cts fst_conv snd_conv)
  show ?thesis
    using cw ch st(2) vsize V Vn C Cn by simp
qed
section \<open>Theorems: debounced shader edits\<close>

lemma appRun_append:
  "appRun diagnostics screenFormat (evs @ evs') app
     = appRun diagnostics screenFormat evs' (appRun diagnostics screenFormat evs app)"
  by (induction evs arbitrary: app) simp_all

lemma timers_not_due:
  assumes "pendingTimeout app = Some (due, newCode)" and "\<forall>t \<in> set ts. t < due"
  shows "appRun diagnostics screenFormat (map Timer ts) app = app"
  using assms by (induction ts) (simp_all add: timerFires_def)

lemma timers_idle:
  assumes "pendingTimeout app = None"
  shows "appRun diagnostics screenFormat (map Timer ts) app = app"
  using assms by (induction ts) (simp_all add: timerFires_def)

lemma setShaderCode_pending:
  "pendingTimeout (setShaderCode diagnostics screenFormat now newCode app) = pendingTimeout app"
  by (simp add: setShaderCode_def Let_def)

lemma timers_fire_once:
  assumes "pendingTimeout app = Some (due, newCode)" and "\<exists>t \<in> set ts. due \<le> t"
  shows "\<exists>t \<in> set ts. due \<le> t
           \<and> appRun diagnostics screenFormat (map Timer ts) app
               = setShaderCode diagnostics screenFormat t newCode (app\<lparr>pendingTimeout := None\<rparr>)"
  using assms
proof (induction ts)
  case Nil
  then show ?case by simp
next
  case (Cons t ts)
  show ?case
  proof (cases "t < due")
    case True
    then have later: "\<exists>t \<in> set ts. due \<le> t" using Cons.prems(2) by auto
    have step: "timerFires diagnostics screenFormat t app = app"
      using True Cons.prems(1) by (simp add: timerFires_def)
    obtain u where "u \<in> set ts" "due \<le> u"
      "appRun diagnostics screenFormat (map Timer ts) app
         = setShaderCode diagnostics screenFormat u newCode (app\<lparr>pendingTimeout := None\<rparr>)"
      using Cons.IH [OF Cons.prems(1) later] by (elim bexE conjE)
    then show ?thesis using step by auto
  next
    case False
    let ?app' = "setShaderCode diagnostics screenFormat t newCode (app\<lparr>pendingTimeout := None\<rparr>)"
    have step: "timerFires diagnostics screenFormat t app = ?app'"
      using False Cons.prems(1) by (simp add: timerFires_def)
    have "pendingTimeout ?app' = None" by (simp add: setShaderCode_pending)
    then have "appRun diagnostics screenFormat (map Timer ts) ?app' = ?app'"
      by (rule timers_idle)
    then show ?thesis using step False by auto
  qed
qed

lemma edits_leave_last_timer:
  assumes "\<forall>t \<in> set ts0. t \<le> 100" and "\<forall>t \<in> set ts1. t \<le> 200" and "\<forall>t \<in> set ts2. t \<le> 480"
  shows "appRun diagnostics screenFormat
           (Edit 0 a # map Timer ts0 @ Edit 100 b # map Timer ts1 @ Edit 200 c # map Timer ts2
              @ Edit 480 d # map Timer ts3) app
         = appRun diagnostics screenFormat (map Timer ts3) (app\<lparr>pendingTimeout := Some (980, d)\<rparr>)"
proof -
  let ?run = "appRun diagnostics screenFormat"
  let ?app1 = "handleCodeChange 0 a app"
  have p1: "pendingTimeout ?app1 = Some (500, a)" by (simp add: handleCodeChange_def)
  have q0: "\<forall>t \<in> set ts0. t < 500" using assms(1) by auto
  have r0: "?run (map Timer ts0) ?app1 = ?app1" by (rule timers_not_due [OF p1 q0])
  let ?app2 = "handleCodeChange 100 b ?app1"
  have p2: "pendingTimeout ?app2 = Some (600, b)" by (simp add: handleCodeChange_def)
  have q1: "\<forall>t \<in> set ts1. t < 600" using assms(2) by auto
  have r1: "?run (map Timer ts1) ?app2 = ?app2" by (rule timers_not_due [OF p2 q1])
  let ?app3 = "handleCodeChange 200 c ?app2"
  have p3: "pendingTimeout ?app3 = Some (700, c)" by (simp add: handleCodeChange_def)
  have q2: "\<forall>t \<in> set ts2. t < 700" using assms(3) by auto
  have r2: "?run (map Timer ts2) ?app3 = ?app3" by (rule timers_not_due [OF p3 q2])
  have last: "handleCodeChange 480 d ?app3 = app\<lparr>pendingTimeout := Some (980, d)\<rparr>"
    by (simp add: handleCodeChange_def)
  have "?run (Edit 0 a # map Timer ts0 @ Edit 100 b # map Timer ts1 @ Edit 200 c # map Timer ts2
              @ Edit 480 d # map Timer ts3) app
        = ?run (Edit 100 b # map Timer ts1 @ Edit 200 c # map Timer ts2 @ Edit 480 d # map Timer ts3)
            ?app1"
    by (simp add: appRun_append r0)
  also have "\<dots> = ?run (Edit 200 c # map Timer ts2 @ Edit 480 d # map Timer ts3) ?app2"
    by (simp add: appRun_append r1)
  also have "\<dots> = ?run (Edit 480 d # map Timer ts3) ?app3"
    by (simp add: appRun_append r2)
  also have "\<dots> = ?run (map Timer ts3) (app\<lparr>pendingTimeout := Some (980, d)\<rparr>)"
    by (simp add: last)
  finally show ?thesis .
qed

text \<open>
  C9 (as stated). Four edits at 0, 100, 200 and 480 ms, the last of which restores the text
  that is already compiled: the timer runs at 980 ms, \<^verbatim>\<open>setShaderCode\<close> receives the value
  the state already has, the effect on \<^verbatim>\<open>[shaderCode]\<close> does not run, and no recompilation
  is triggered.
\<close>

theorem debounce_same_text_no_recompilation:
  "recompilations
     (appRun (\<lambda>code. []) ''bgra8unorm''
        [Edit 0 ''shader a'', Edit 100 ''shader ab'', Edit 200 ''shader a'', Edit 480 ''shader'',
         Timer 980, Timer 2000] idleApp) = []
   \<and> shaderModules (renderer
     (appRun (\<lambda>code. []) ''bgra8unorm''
        [Edit 0 ''shader a'', Edit 100 ''shader ab'', Edit 200 ''shader a'', Edit 480 ''shader'',
         Timer 980, Timer 2000] idleApp)) = shaderModules initialised"
  by (simp add: idleApp_def handleCodeChange_def timerFires_def setShaderCode_def)

text \<open>
  C9 (amended). Edits arrive at 0, 100, 200 and 480 ms with texts \<open>a\<close>, \<open>b\<close>, \<open>c\<close>, \<open>d\<close>;
  between them and afterwards the event loop may try to run timers at any times (\<open>ts0\<close> up
  to 100 ms, \<open>ts1\<close> up to 200 ms, \<open>ts2\<close> up to 480 ms, \<open>ts3\<close> at will, one of them at 980 ms
  or later). With the device and the context of the renderer in place: when \<open>d\<close> differs
  from the shader text currently set, exactly one recompilation is triggered, with the text
  \<open>d\<close>, at a time at least 500 ms after the last edit; when \<open>d\<close> is the text currently set,
  none is.
\<close>

theorem debounce_coalesces_edits:
  assumes "deviceRef (renderer app)" and "contextRef (renderer app)"
    and "\<forall>t \<in> set ts0. t \<le> 100" and "\<forall>t \<in> set ts1. t \<le> 200" and "\<forall>t \<in> set ts2. t \<le> 480"
    and "\<exists>t \<in> set ts3. 980 \<le> t"
  shows "if d = shaderCode app
         then recompilations (appRun diagnostics screenFormat
                 (Edit 0 a # map Timer ts0 @ Edit 100 b # map Timer ts1 @ Edit 200 c # map Timer ts2
                    @ Edit 480 d # map Timer ts3) app) = recompilations app
         else (\<exists>t. 480 + 500 \<le> t
               \<and> recompilations (appRun diagnostics screenFormat
                 (Edit 0 a # map Timer ts0 @ Edit 100 b # map Timer ts1 @ Edit 200 c # map Timer ts2
                    @ Edit 480 d # map Timer ts3) app) = recompilations app @ [(t, d)]
               \<and> shaderModules (renderer (appRun diagnostics screenFormat
                 (Edit 0 a # map Timer ts0 @ Edit 100 b # map Timer ts1 @ Edit 200 c # map Timer ts2
                    @ Edit 480 d # map Timer ts3) app)) = shaderModules (renderer app) @ [d]
               \<and> shaderCode (appRun diagnostics screenFormat
                 (Edit 0 a # map Timer ts0 @ Edit 100 b # map Timer ts1 @ Edit 200 c # map Timer ts2
                    @ Edit 480 d # map Timer ts3) app) = d)"
proof -
  let ?app4 = "app\<lparr>pendingTimeout := Some (980, d)\<rparr>"
  have p4: "pendingTimeout ?app4 = Some (980, d)" by simp
  obtain t where t: "980 \<le> t"
    and fired: "appRun diagnostics screenFormat (map Timer ts3) ?app4
                  = setShaderCode diagnostics screenFormat t d (?app4\<lparr>pendingTimeout := None\<rparr>)"
    using timers_fire_once [OF p4 assms(6), of diagnostics screenFormat] by (elim bexE conjE)
  have run: "appRun diagnostics screenFormat
                 (Edit 0 a # map Timer ts0 @ Edit 100 b # map Timer ts1 @ Edit 200 c # map Timer ts2
                    @ Edit 480 d # map Timer ts3) app
             = setShaderCode diagnostics screenFormat t d (?app4\<lparr>pendingTimeout := None\<rparr>)"
    using edits_leave_last_timer [OF assms(3,4,5)] fired by simp
  have modules: "shaderModules (compilePipeline d (diagnostics d) screenFormat (renderer app))
                   = shaderModules (renderer app) @ [d]"
    by (simp add: compilePipeline_def Let_def)
  show ?thesis
  proof (cases "d = shaderCode app")
    case True
    show ?thesis unfolding run using True by (simp add: setShaderCode_def)
  next
    case False
    have "recompilations (setShaderCode diagnostics screenFormat t d (?app4\<lparr>pendingTimeout := None\<rparr>))
            = recompilations app @ [(t, d)]"
      "shaderModules (renderer (setShaderCode diagnostics screenFormat t d (?app4\<lparr>pendingTimeout := None\<rparr>)))
            = shaderModules (renderer app) @ [d]"
      "shaderCode (setShaderCode diagnostics screenFormat t d (?app4\<lparr>pendingTimeout := None\<rparr>)) = d"
      using False assms(1,2) modules by (simp_all add: setShaderCode_def Let_def)
    then show ?thesis using False t by (simp only: run if_False) auto
  qed
qed

text \<open>C9 (amended), on a concrete run over the initialised renderer.\<close>

theorem debounce_coalesces_edits_witness:
  "deviceRef (renderer idleApp) \<and> contextRef (renderer idleApp)
   \<and> ''shader b'' \<noteq> shaderCode idleApp
   \<and> (\<exists>t. 980 \<le> t
        \<and> recompilations (appRun (\<lambda>code. []) ''bgra8unorm''
             (Edit 0 ''shader x'' # map Timer [50] @ Edit 100 ''shader y'' # map Timer [150]
                @ Edit 200 ''shader z'' # map Timer [300, 470] @ Edit 480 ''shader b''
                # map Timer [600, 985, 2000]) idleApp) = [(t, ''shader b'')])"
proof -
  have dev: "deviceRef (renderer idleApp)" "contextRef (renderer idleApp)"
    by (simp_all add: idleApp_def initialised_def initWebGPU_def compilePipeline_def mounted_def Let_def)
  have ne: "''shader b'' \<noteq> shaderCode idleApp" by (simp add: idleApp_def)
  have r0: "recompilations idleApp = []" by (simp add: idleApp_def)
  have h0: "\<forall>t \<in> set [50 :: nat]. t \<le> 100" by simp
  have h1: "\<forall>t \<in> set [150 :: nat]. t \<le> 200" by simp
  have h2: "\<forall>t \<in> set [300, 470 :: nat]. t \<le> 480" by simp
  have h3: "\<exists>t \<in> set [600, 985, 2000 :: nat]. 980 \<le> t" by simp
  note T = debounce_coalesces_edits [OF dev h0 h1 h2 h3, of "''shader b''" "\<lambda>code. []" "''bgra8unorm''"
             "''shader x''" "''shader y''" "''shader z''"]
  have "\<exists>t. 480 + 500 \<le> t
        \<and> recompilations (appRun (\<lambda>code. []) ''bgra8unorm''
             (Edit 0 ''shader x'' # map Timer [50] @ Edit 100 ''shader y'' # map Timer [150]
                @ Edit 200 ''shader z'' # map Timer [300, 470] @ Edit 480 ''shader b''
                # map Timer [600, 985, 2000]) idleApp) = recompilations idleApp @ [(t, ''shader b'')]"
    using T ne by (simp only: if_False) blast
  then show ?thesis using dev ne r0 by simp
qed

end
